theory Spec2Isabelle
  imports Main "HOL-Library.Word"
begin

unbundle bit_operations_syntax

section \<open>Scalars, constants and configuration\<close>

text \<open>
  Epochs, slots, validator indices and balances are \<open>uint64\<close> in the source, so they are
  64-bit words here: \<open>+\<close> wraps around, \<open><\<close> and \<open>\<le>\<close> compare unsigned. A root is a
  32-byte array, a BLS signature a 96-byte array, an attester flag set a \<open>uint8\<close>.
\<close>

type_synonym Epoch = "64 word"
type_synonym Slot = "64 word"
type_synonym ValidatorIndex = "64 word"
type_synonym CommitteeIndex = "64 word"
type_synonym Gwei = "64 word"
type_synonym Root = "256 word"
type_synonym BLSSignature = "768 word"
type_synonym AttesterFlag = "8 word"

text \<open>constants.go: \<^verbatim>\<open>const FAR_FUTURE_EPOCH = Epoch(^uint64(0))\<close>.\<close>

definition FAR_FUTURE_EPOCH :: Epoch where
  "FAR_FUTURE_EPOCH = NOT 0"

text \<open>
  Every error return and every panic of the modelled functions is a value of this type.
  The validation errors keep the data their messages print. The two \<open>Panic\<close> values are
  Go run-time panics (an index outside a slice, an integer division by zero); \<open>External\<close>
  is an error handed back by one of the accessors that are parameters of the model.
\<close>

datatype error =
    TransitionCancelErr
  | InvalidIndicesCount nat
  | EmptyAttestation
  | IndicesNotSorted
  | DuplicateIndices nat nat ValidatorIndex
  | IndexOutOfRange
  | ValidatorAccessErr ValidatorIndex
  | PanicIndexOutOfRange
  | PanicDivideByZero
  | External nat

text \<open>
  The protocol configuration \<^verbatim>\<open>Spec\<close>: the constants the modelled functions read, each a
  \<open>uint64\<close>. \<^verbatim>\<open>EpochStartSlot\<close> is a method of \<^verbatim>\<open>Spec\<close> whose body is not among the sources;
  it is taken as a parameter, with its error return.
\<close>

record Spec =
  MAX_VALIDATORS_PER_COMMITTEE :: "64 word"
  EPOCHS_PER_SLASHINGS_VECTOR :: Epoch
  MAX_EFFECTIVE_BALANCE :: Gwei
  EJECTION_BALANCE :: Gwei
  EFFECTIVE_BALANCE_INCREMENT :: Gwei
  MIN_PER_EPOCH_CHURN_LIMIT :: "64 word"
  CHURN_LIMIT_QUOTIENT :: "64 word"
  MIN_VALIDATOR_WITHDRAWABILITY_DELAY :: Epoch
  MAX_SEED_LOOKAHEAD :: Epoch
  EpochStartSlot :: "Epoch \<Rightarrow> error + Slot"

section \<open>Validators, attestations and the beacon state\<close>

text \<open>
  The flat copy of a registry entry that the epoch collector takes (\<^verbatim>\<open>ToFlatValidator\<close>).
  The registry itself is modelled as a list of these: the public key and the withdrawal
  credentials of an entry are read by none of the functions below.
\<close>

record FlatValidator =
  EffectiveBalance :: Gwei
  Slashed :: bool
  ActivationEligibilityEpoch :: Epoch
  ActivationEpoch :: Epoch
  ExitEpoch :: Epoch
  WithdrawableEpoch :: Epoch

text \<open>
  Modelled from the spec: \<^verbatim>\<open>FlatValidator.IsActive\<close> is not among the sources; the data
  model gives it as \<open>activation_epoch \<le> epoch < exit_epoch\<close>.
\<close>

definition IsActive :: "FlatValidator \<Rightarrow> Epoch \<Rightarrow> bool" where
  "IsActive v epoch \<longleftrightarrow> ActivationEpoch v \<le> epoch \<and> epoch < ExitEpoch v"

record Checkpoint =
  cp_Epoch :: Epoch
  cp_Root :: Root

record AttestationData =
  Slot :: Slot
  Index :: CommitteeIndex
  BeaconBlockRoot :: Root
  Source :: Checkpoint
  Target :: Checkpoint

record IndexedAttestation =
  AttestingIndices :: "ValidatorIndex list"
  ia_Data :: AttestationData
  Signature :: BLSSignature

record PendingAttestation =
  AggregationBits :: "bool list"
  Data :: AttestationData
  att_InclusionDelay :: Slot
  ProposerIndex :: ValidatorIndex

text \<open>
  The beacon state as the modelled functions see it through \<^verbatim>\<open>BeaconStateView\<close>: the
  validator registry, the two lists of pending attestations and the finalized checkpoint.
  \<^verbatim>\<open>GetBlockRootAtSlot\<close> is not among the sources; what it answers for a slot, error
  included, is a parameter carried by the state. So is the error, if any, with which the
  read behind \<^verbatim>\<open>IsValidIndex\<close> fails.
\<close>

record BeaconState =
  validators :: "FlatValidator list"
  previous_epoch_attestations :: "PendingAttestation list"
  current_epoch_attestations :: "PendingAttestation list"
  finalized_checkpoint :: Checkpoint
  GetBlockRootAtSlot :: "Slot \<Rightarrow> error + Root"
  IsValidIndex_error :: "error option"

text \<open>
  \<^verbatim>\<open>EpochsContext\<close>: the epochs of the previous and the current shuffling, the active
  indices of the current one, and the committee resolver \<^verbatim>\<open>GetBeaconCommittee\<close>, which
  is a parameter (its body is not among the sources).
\<close>

record EpochsContext =
  PreviousEpoch :: Epoch
  CurrentEpoch :: Epoch
  ActiveIndices :: "ValidatorIndex list"
  GetBeaconCommittee :: "Slot \<Rightarrow> CommitteeIndex \<Rightarrow> error + ValidatorIndex list"

section \<open>Indexed-attestation validation (indexed.go)\<close>

text \<open>
  Modelled from the spec: \<^verbatim>\<open>ValidatorSet\<close> and its \<^verbatim>\<open>sort.Interface\<close> methods are not among
  the sources. \<^verbatim>\<open>sort.IsSorted\<close> answers false as soon as some element is smaller than
  its predecessor (\<^verbatim>\<open>Less(i, i-1)\<close>), and the spec calls the order ascending.
\<close>

fun IsSorted :: "ValidatorIndex list \<Rightarrow> bool" where
  "IsSorted (x # y # zs) = (\<not> y < x \<and> IsSorted (y # zs))"
| "IsSorted _ = True"

text \<open>
  The uniqueness loop \<^verbatim>\<open>for i := 1; i < len(indices); i++\<close>: the first \<open>i\<close> at which
  \<open>indices[i-1] == indices[i]\<close>, if there is one. The first argument is the loop counter,
  the third the elements from position \<open>i\<close> on, the second the element before them.
\<close>

fun dup_scan :: "nat \<Rightarrow> ValidatorIndex \<Rightarrow> ValidatorIndex list \<Rightarrow> nat option" where
  "dup_scan i p [] = None"
| "dup_scan i p (x # xs) = (if p = x then Some i else dup_scan (Suc i) x xs)"

text \<open>
  A Go slice has fewer than \<open>2^63\<close> elements, so \<^verbatim>\<open>uint64(len(indices))\<close> is the length
  itself and the comparison with the bound is a comparison of naturals.
\<close>

definition ValidateIndexedAttestationIndicesSet ::
    "Spec \<Rightarrow> IndexedAttestation \<Rightarrow> error + ValidatorIndex list" where
  "ValidateIndexedAttestationIndicesSet spec indexedAttestation =
     (let indices = AttestingIndices indexedAttestation in
      if length indices > unat (MAX_VALIDATORS_PER_COMMITTEE spec)
        then Inl (InvalidIndicesCount (length indices))
      else if length indices \<le> 0 then Inl EmptyAttestation
      else if \<not> IsSorted indices then Inl IndicesNotSorted
      else (case dup_scan 1 (hd indices) (tl indices) of
              Some i \<Rightarrow> Inl (DuplicateIndices (i - 1) i (indices ! i))
            | None \<Rightarrow> Inr indices))"

text \<open>
  Modelled from the spec: \<^verbatim>\<open>BeaconStateView.IsValidIndex\<close> is not among the sources. It
  hands back a boolean and an error: the spec asks for the index to be within registry
  bounds, and the read of the registry behind it can fail with a state access error,
  which the state carries.
\<close>

definition IsValidIndex :: "BeaconState \<Rightarrow> ValidatorIndex \<Rightarrow> error + bool" where
  "IsValidIndex state index =
     (case IsValidIndex_error state of
        Some err \<Rightarrow> Inl err
      | None \<Rightarrow> Inr (unat index < length (validators state)))"

definition ValidateIndexedAttestationNoSignature ::
    "Spec \<Rightarrow> BeaconState \<Rightarrow> IndexedAttestation \<Rightarrow> error + unit" where
  "ValidateIndexedAttestationNoSignature spec state indexedAttestation =
     (case ValidateIndexedAttestationIndicesSet spec indexedAttestation of
        Inl err \<Rightarrow> Inl err
      | Inr indices \<Rightarrow>
          (case IsValidIndex state (indices ! (length indices - 1)) of
             Inl err \<Rightarrow> Inl err
           | Inr valid \<Rightarrow> if \<not> valid then Inl IndexOutOfRange else Inr ()))"

section \<open>Attester statuses and the epoch process\<close>

text \<open>
  Modelled from the spec: the declarations of \<^verbatim>\<open>AttesterFlag\<close>, of its eight flags and of
  \<^verbatim>\<open>HasMarkers\<close> are not among the sources. The data model gives the flag bitset as
  UnslashedAttester, EligibleAttester and Prev/Curr Source/Target/Head attester; each
  flag is one bit of the \<open>uint8\<close>, and a status has a set of markers when all their bits
  are set in its flags.
\<close>

definition PrevSourceAttester :: AttesterFlag where "PrevSourceAttester = push_bit 0 1"
definition PrevTargetAttester :: AttesterFlag where "PrevTargetAttester = push_bit 1 1"
definition PrevHeadAttester :: AttesterFlag where "PrevHeadAttester = push_bit 2 1"
definition CurrSourceAttester :: AttesterFlag where "CurrSourceAttester = push_bit 3 1"
definition CurrTargetAttester :: AttesterFlag where "CurrTargetAttester = push_bit 4 1"
definition CurrHeadAttester :: AttesterFlag where "CurrHeadAttester = push_bit 5 1"
definition UnslashedAttester :: AttesterFlag where "UnslashedAttester = push_bit 6 1"
definition EligibleAttester :: AttesterFlag where "EligibleAttester = push_bit 7 1"

definition HasMarkers :: "AttesterFlag \<Rightarrow> AttesterFlag \<Rightarrow> bool" where
  "HasMarkers flags markers \<longleftrightarrow> flags AND markers = markers"

text \<open>
  Modelled from the spec: \<^verbatim>\<open>ValidatorIndexMarker\<close> is not among the sources; it is the
  sentinel the attesting proposer index holds until it is set, the largest \<open>uint64\<close>.
\<close>

definition ValidatorIndexMarker :: ValidatorIndex where
  "ValidatorIndexMarker = NOT 0"

record AttesterStatus =
  Validator :: FlatValidator
  Flags :: AttesterFlag
  Active :: bool
  InclusionDelay :: Slot
  AttestedProposer :: ValidatorIndex

text \<open>The zero value that \<^verbatim>\<open>make([]AttesterStatus, count, count)\<close> fills the slice with.\<close>

definition zero_status :: AttesterStatus where
  "zero_status =
     \<lparr>Validator = \<lparr>EffectiveBalance = 0, Slashed = False, ActivationEligibilityEpoch = 0,
                   ActivationEpoch = 0, ExitEpoch = 0, WithdrawableEpoch = 0\<rparr>,
      Flags = 0, Active = False, InclusionDelay = 0, AttestedProposer = 0\<rparr>"

record EpochStakeSummary =
  SourceStake :: Gwei
  TargetStake :: Gwei
  HeadStake :: Gwei

record EpochProcess =
  PrevEpoch :: Epoch
  CurrEpoch :: Epoch
  Statuses :: "AttesterStatus list"
  TotalActiveStake :: Gwei
  PrevEpochUnslashedStake :: EpochStakeSummary
  CurrEpochUnslashedTargetStake :: Gwei
  ActiveValidators :: "64 word"
  IndicesToSlash :: "ValidatorIndex list"
  IndicesToSetActivationEligibility :: "ValidatorIndex list"
  IndicesToMaybeActivate :: "ValidatorIndex list"
  IndicesToEject :: "ValidatorIndex list"
  ExitQueueEnd :: Epoch
  ExitQueueEndChurn :: "64 word"
  ChurnLimit :: "64 word"

text \<open>
  \<^verbatim>\<open>GetChurnLimit\<close>: \<^verbatim>\<open>math.MaxU64\<close> is the maximum of two \<open>uint64\<close>; the division panics
  in Go when the quotient of the configuration is zero.
\<close>

definition GetChurnLimit :: "Spec \<Rightarrow> 64 word \<Rightarrow> error + 64 word" where
  "GetChurnLimit spec activeValidatorCount =
     (if CHURN_LIMIT_QUOTIENT spec = 0 then Inl PanicDivideByZero
      else Inr (max (MIN_PER_EPOCH_CHURN_LIMIT spec)
                    (activeValidatorCount div CHURN_LIMIT_QUOTIENT spec)))"

text \<open>
  Modelled from the spec: \<^verbatim>\<open>ComputeActivationExitEpoch\<close> is not among the sources; the spec
  describes it as the given epoch plus a fixed delay, which in the protocol is one epoch
  plus the seed lookahead.
\<close>

definition ComputeActivationExitEpoch :: "Spec \<Rightarrow> Epoch \<Rightarrow> Epoch" where
  "ComputeActivationExitEpoch spec epoch = epoch + 1 + MAX_SEED_LOOKAHEAD spec"

section \<open>The epoch statistics collector (PrepareEpochProcess)\<close>

text \<open>
  Cancellation. \<^verbatim>\<open>ctx.Done()\<close> is polled without blocking at fixed places of the code. What
  a poll observes is a parameter of the model: a context says, for every place where the
  code may poll, whether the cancellation signal is set when the code polls there. The
  places are the validator counter of pass 1, the attestation counter of each of the two
  runs of pass 2, and the entry of the registry updates.
\<close>

datatype poll_site =
    ValidatorPoll nat
  | PrevAttestationPoll nat
  | CurrAttestationPoll nat
  | RegistryUpdatesPoll

type_synonym Context = "poll_site \<Rightarrow> bool"

text \<open>
  The body of the loop of pass 1 for the validator \<open>flat\<close> at index \<open>i\<close>, statement by
  statement. A conditional append \<^verbatim>\<open>if c { q = append(q, i) }\<close> and a conditional addition
  \<^verbatim>\<open>if c { s += x }\<close> are written as updates of the field they change.
\<close>

definition append_if :: "bool \<Rightarrow> ValidatorIndex \<Rightarrow> ValidatorIndex list \<Rightarrow> ValidatorIndex list" where
  "append_if c i q = (if c then q @ [i] else q)"

definition add_if :: "bool \<Rightarrow> 64 word \<Rightarrow> 64 word \<Rightarrow> 64 word" where
  "add_if c x s = (if c then s + x else s)"

text \<open>
  What the body writes to \<^verbatim>\<open>out.Statuses[i]\<close>: the flat validator, the proposer sentinel,
  the unslashed flag unless the validator is slashed, the eligible flag, and the activity
  in the current epoch.
\<close>

definition validator_status ::
    "Epoch \<Rightarrow> Epoch \<Rightarrow> FlatValidator \<Rightarrow> AttesterStatus \<Rightarrow> AttesterStatus" where
  "validator_status prevEpoch currentEpoch flat status =
     (let status1 = status\<lparr>Validator := flat, AttestedProposer := ValidatorIndexMarker\<rparr>;
          status2 = Flags_update
                      (\<lambda>flags. if Slashed flat then flags else flags OR UnslashedAttester)
                      status1;
          status3 = Flags_update
                      (\<lambda>flags. if IsActive flat prevEpoch
                                   \<or> (Slashed flat \<and> prevEpoch + 1 < WithdrawableEpoch flat)
                                then flags OR EligibleAttester else flags)
                      status2
      in status3\<lparr>Active := IsActive flat currentEpoch\<rparr>)"

text \<open>
  The whole body. The accumulator is the epoch process under construction and
  \<^verbatim>\<open>activeCount\<close>. The status slice has one entry per registry entry, so \<open>i\<close> is always
  inside it.
\<close>

definition validator_step ::
    "Spec \<Rightarrow> Epoch \<Rightarrow> Epoch \<Rightarrow> Epoch \<Rightarrow> nat \<Rightarrow> FlatValidator \<Rightarrow>
     EpochProcess \<times> 64 word \<Rightarrow> EpochProcess \<times> 64 word" where
  "validator_step spec prevEpoch currentEpoch slashingsEpoch i flat acc =
     (let status = validator_status prevEpoch currentEpoch flat (Statuses (fst acc) ! i);
          out1 = IndicesToSlash_update
                   (append_if (Slashed flat \<and> slashingsEpoch = WithdrawableEpoch flat)
                      (of_nat i))
                   (fst acc);
          activeCount = add_if (Active status) 1 (snd acc);
          out2 = TotalActiveStake_update
                   (add_if (Active status) (EffectiveBalance flat)) out1;
          out3 = IndicesToSetActivationEligibility_update
                   (append_if (ActivationEligibilityEpoch flat = FAR_FUTURE_EPOCH
                                 \<and> EffectiveBalance flat = MAX_EFFECTIVE_BALANCE spec)
                      (of_nat i))
                   out2;
          out4 = IndicesToMaybeActivate_update
                   (append_if (ActivationEpoch flat = FAR_FUTURE_EPOCH
                                 \<and> ActivationEligibilityEpoch flat \<le> currentEpoch)
                      (of_nat i))
                   out3;
          out5 = IndicesToEject_update
                   (append_if (Active status
                                 \<and> EffectiveBalance flat \<le> EJECTION_BALANCE spec
                                 \<and> ExitEpoch flat = FAR_FUTURE_EPOCH)
                      (of_nat i))
                   out4
      in (Statuses_update (\<lambda>statuses. statuses[i := status]) out5, activeCount))"

text \<open>
  Pass 1, \<^verbatim>\<open>for i := ValidatorIndex(0); true; i++\<close>: the poll comes first, whenever the low
  ten bits of \<open>i\<close> are zero, then the iterator is advanced; the loop ends when the iterator
  has no next element. The list argument is what the iterator still holds.
\<close>

fun validators_loop ::
    "Context \<Rightarrow> Spec \<Rightarrow> Epoch \<Rightarrow> Epoch \<Rightarrow> Epoch \<Rightarrow> nat \<Rightarrow> FlatValidator list \<Rightarrow>
     EpochProcess \<times> 64 word \<Rightarrow> error + EpochProcess \<times> 64 word" where
  "validators_loop ctx spec prevEpoch currentEpoch slashingsEpoch i [] acc =
     (if (of_nat i :: 64 word) AND (push_bit 10 1 - 1) = 0 \<and> ctx (ValidatorPoll i)
      then Inl TransitionCancelErr
      else Inr acc)"
| "validators_loop ctx spec prevEpoch currentEpoch slashingsEpoch i (flat # rest) acc =
     (if (of_nat i :: 64 word) AND (push_bit 10 1 - 1) = 0 \<and> ctx (ValidatorPoll i)
      then Inl TransitionCancelErr
      else validators_loop ctx spec prevEpoch currentEpoch slashingsEpoch (Suc i) rest
             (validator_step spec prevEpoch currentEpoch slashingsEpoch i flat acc))"

text \<open>
  The comparison handed to \<^verbatim>\<open>sort.Slice\<close>: by activation eligibility epoch of the status
  snapshot, then by validator index.
\<close>

definition maybe_activate_less ::
    "AttesterStatus list \<Rightarrow> ValidatorIndex \<Rightarrow> ValidatorIndex \<Rightarrow> bool" where
  "maybe_activate_less statuses valIndexA valIndexB =
     (let a = ActivationEligibilityEpoch (Validator (statuses ! unat valIndexA));
          b = ActivationEligibilityEpoch (Validator (statuses ! unat valIndexB))
      in if a = b then valIndexA < valIndexB else a < b)"

text \<open>
  Modelled from the spec: \<^verbatim>\<open>sort.Slice\<close> belongs to Go's standard library and is not among
  the sources. It rearranges the slice into ascending order of the comparison it is
  given; the spec asks for the queue sorted ascending. The model sorts by insertion: an
  element goes before the first one that is not smaller than it.
\<close>

fun insert_by :: "('a \<Rightarrow> 'a \<Rightarrow> bool) \<Rightarrow> 'a \<Rightarrow> 'a list \<Rightarrow> 'a list" where
  "insert_by lessFn x [] = [x]"
| "insert_by lessFn x (y # ys) =
     (if lessFn y x then y # insert_by lessFn x ys else x # y # ys)"

definition sort_Slice :: "('a \<Rightarrow> 'a \<Rightarrow> bool) \<Rightarrow> 'a list \<Rightarrow> 'a list" where
  "sort_Slice lessFn xs = foldr (insert_by lessFn) xs []"

text \<open>
  The loop that counts the validators whose exit epoch is the queue end:
  \<^verbatim>\<open>for i := ValidatorIndex(0); i < ValidatorIndex(count); i++\<close> over the statuses.
\<close>

fun exit_churn_loop :: "Epoch \<Rightarrow> AttesterStatus list \<Rightarrow> 64 word \<Rightarrow> 64 word" where
  "exit_churn_loop exitQueueEnd [] exitQueueEndChurn = exitQueueEndChurn"
| "exit_churn_loop exitQueueEnd (status # rest) exitQueueEndChurn =
     exit_churn_loop exitQueueEnd rest
       (if ExitEpoch (Validator status) = exitQueueEnd then exitQueueEndChurn + 1
        else exitQueueEndChurn)"

text \<open>
  Modelled from the spec: \<^verbatim>\<open>FilterParticipants\<close> is not among the sources; it keeps the
  committee members that are marked in the aggregation bitfield.
\<close>

definition FilterParticipants :: "bool list \<Rightarrow> ValidatorIndex list \<Rightarrow> ValidatorIndex list" where
  "FilterParticipants bits committee = map fst (filter snd (zip committee bits))"

text \<open>
  The bodies of the two loops over the participants of one attestation: the earliest
  inclusion (previous epoch only), then the source, target and head flags. The head flag
  is set inside the branch that sets the target flag.
\<close>

definition note_inclusion :: "PendingAttestation \<Rightarrow> AttesterStatus \<Rightarrow> AttesterStatus" where
  "note_inclusion att status =
     (if AttestedProposer status = ValidatorIndexMarker
         \<or> InclusionDelay status > att_InclusionDelay att
      then status\<lparr>InclusionDelay := att_InclusionDelay att,
                  AttestedProposer := ProposerIndex att\<rparr>
      else status)"

definition mark_attester ::
    "PendingAttestation \<Rightarrow> Root \<Rightarrow> Root \<Rightarrow> AttesterFlag \<Rightarrow> AttesterFlag \<Rightarrow> AttesterFlag \<Rightarrow>
     AttesterStatus \<Rightarrow> AttesterStatus" where
  "mark_attester att actualTargetBlockRoot attBlockRoot sourceFlag targetFlag headFlag status =
     (let status1 = status\<lparr>Flags := Flags status OR sourceFlag\<rparr> in
      if cp_Root (Target (Data att)) = actualTargetBlockRoot
      then (let status2 = status1\<lparr>Flags := Flags status1 OR targetFlag\<rparr> in
            if BeaconBlockRoot (Data att) = attBlockRoot
            then status2\<lparr>Flags := Flags status2 OR headFlag\<rparr>
            else status2)
      else status1)"

text \<open>
  The loops themselves, \<^verbatim>\<open>for _, p := range participants\<close>. \<^verbatim>\<open>out.Statuses[p]\<close> panics in
  Go when the committee resolver hands back an index outside the status slice.
\<close>

fun inclusion_loop ::
    "PendingAttestation \<Rightarrow> ValidatorIndex list \<Rightarrow> AttesterStatus list \<Rightarrow>
     error + AttesterStatus list" where
  "inclusion_loop att [] statuses = Inr statuses"
| "inclusion_loop att (p # ps) statuses =
     (if length statuses \<le> unat p then Inl PanicIndexOutOfRange
      else inclusion_loop att ps
             (statuses[unat p := note_inclusion att (statuses ! unat p)]))"

fun flags_loop ::
    "PendingAttestation \<Rightarrow> Root \<Rightarrow> Root \<Rightarrow> AttesterFlag \<Rightarrow> AttesterFlag \<Rightarrow> AttesterFlag \<Rightarrow>
     ValidatorIndex list \<Rightarrow> AttesterStatus list \<Rightarrow> error + AttesterStatus list" where
  "flags_loop att actualTargetBlockRoot attBlockRoot sourceFlag targetFlag headFlag []
       statuses = Inr statuses"
| "flags_loop att actualTargetBlockRoot attBlockRoot sourceFlag targetFlag headFlag (p # ps)
       statuses =
     (if length statuses \<le> unat p then Inl PanicIndexOutOfRange
      else flags_loop att actualTargetBlockRoot attBlockRoot sourceFlag targetFlag headFlag ps
             (statuses[unat p := mark_attester att actualTargetBlockRoot attBlockRoot
                                   sourceFlag targetFlag headFlag (statuses ! unat p)]))"

text \<open>
  The attestation loop of the closure \<^verbatim>\<open>processEpoch\<close>. The counter \<open>i\<close> is a Go \<open>int\<close>; the
  poll comes first, whenever its low five bits are zero. \<open>done\<close> is what the context
  answers at each value of the counter in this run. The closure writes nothing of the
  epoch process but the statuses, which are the state of the loop.
\<close>

fun attestations_loop ::
    "(nat \<Rightarrow> bool) \<Rightarrow> EpochsContext \<Rightarrow> BeaconState \<Rightarrow> Epoch \<Rightarrow> Epoch \<Rightarrow>
     AttesterFlag \<Rightarrow> AttesterFlag \<Rightarrow> AttesterFlag \<Rightarrow> Root \<Rightarrow> nat \<Rightarrow>
     PendingAttestation list \<Rightarrow> AttesterStatus list \<Rightarrow> error + AttesterStatus list" where
  "attestations_loop done epc state prevEpoch epoch sourceFlag targetFlag headFlag
       actualTargetBlockRoot i [] statuses =
     (if (of_nat i :: 64 word) AND (push_bit 5 1 - 1) = 0 \<and> done i
      then Inl TransitionCancelErr
      else Inr statuses)"
| "attestations_loop done epc state prevEpoch epoch sourceFlag targetFlag headFlag
       actualTargetBlockRoot i (att # rest) statuses =
     (if (of_nat i :: 64 word) AND (push_bit 5 1 - 1) = 0 \<and> done i
      then Inl TransitionCancelErr
      else
        case GetBlockRootAtSlot state (Slot (Data att)) of
          Inl err \<Rightarrow> Inl err
        | Inr attBlockRoot \<Rightarrow>
        (case GetBeaconCommittee epc (Slot (Data att)) (Index (Data att)) of
          Inl err \<Rightarrow> Inl err
        | Inr committee \<Rightarrow>
        (let participants = FilterParticipants (AggregationBits att) committee in
         case (if epoch = prevEpoch then inclusion_loop att participants statuses
               else Inr statuses) of
          Inl err \<Rightarrow> Inl err
        | Inr statuses1 \<Rightarrow>
        (case flags_loop att actualTargetBlockRoot attBlockRoot sourceFlag targetFlag headFlag
                participants statuses1 of
          Inl err \<Rightarrow> Inl err
        | Inr statuses2 \<Rightarrow>
            attestations_loop done epc state prevEpoch epoch sourceFlag targetFlag headFlag
              actualTargetBlockRoot (Suc i) rest statuses2))))"

definition processEpoch ::
    "(nat \<Rightarrow> bool) \<Rightarrow> Spec \<Rightarrow> EpochsContext \<Rightarrow> BeaconState \<Rightarrow> Epoch \<Rightarrow>
     PendingAttestation list \<Rightarrow> Epoch \<Rightarrow> AttesterFlag \<Rightarrow> AttesterFlag \<Rightarrow> AttesterFlag \<Rightarrow>
     AttesterStatus list \<Rightarrow> error + AttesterStatus list" where
  "processEpoch done spec epc state prevEpoch attestations epoch sourceFlag targetFlag headFlag
       statuses =
     (case EpochStartSlot spec epoch of
        Inl err \<Rightarrow> Inl err
      | Inr startSlot \<Rightarrow>
      (case GetBlockRootAtSlot state startSlot of
        Inl err \<Rightarrow> Inl err
      | Inr actualTargetBlockRoot \<Rightarrow>
          attestations_loop done epc state prevEpoch epoch sourceFlag targetFlag headFlag
            actualTargetBlockRoot 0 attestations statuses))"

text \<open>
  The stake sums, \<^verbatim>\<open>for i := 0; i < len(out.Statuses); i++\<close>, one status per step. The
  target sum is nested in the source condition and the head sum in the target condition.
\<close>

definition stake_step :: "AttesterStatus \<Rightarrow> EpochProcess \<Rightarrow> EpochProcess" where
  "stake_step status out =
     (let bal = EffectiveBalance (Validator status);
          src = HasMarkers (Flags status) (PrevSourceAttester OR UnslashedAttester);
          tgt = (src \<and> HasMarkers (Flags status) PrevTargetAttester);
          head = (tgt \<and> HasMarkers (Flags status) PrevHeadAttester);
          out1 = PrevEpochUnslashedStake_update (SourceStake_update (add_if src bal)) out;
          out2 = PrevEpochUnslashedStake_update (TargetStake_update (add_if tgt bal)) out1;
          out3 = PrevEpochUnslashedStake_update (HeadStake_update (add_if head bal)) out2
      in CurrEpochUnslashedTargetStake_update
           (add_if (HasMarkers (Flags status) (CurrTargetAttester OR UnslashedAttester)) bal)
           out3)"

fun stake_loop :: "AttesterStatus list \<Rightarrow> EpochProcess \<Rightarrow> EpochProcess" where
  "stake_loop [] out = out"
| "stake_loop (status # rest) out = stake_loop rest (stake_step status out)"

text \<open>
  The five floors at the end of \<^verbatim>\<open>PrepareEpochProcess\<close>, each
  \<^verbatim>\<open>if x < spec.EFFECTIVE_BALANCE_INCREMENT { x = spec.EFFECTIVE_BALANCE_INCREMENT }\<close>.
\<close>

definition floor_at :: "Gwei \<Rightarrow> Gwei \<Rightarrow> Gwei" where
  "floor_at inc x = (if x < inc then inc else x)"

definition clamp_stakes :: "Spec \<Rightarrow> EpochProcess \<Rightarrow> EpochProcess" where
  "clamp_stakes spec out =
     (let inc = EFFECTIVE_BALANCE_INCREMENT spec;
          out1 = TotalActiveStake_update (floor_at inc) out;
          out2 = PrevEpochUnslashedStake_update (SourceStake_update (floor_at inc)) out1;
          out3 = PrevEpochUnslashedStake_update (TargetStake_update (floor_at inc)) out2;
          out4 = PrevEpochUnslashedStake_update (HeadStake_update (floor_at inc)) out3
      in CurrEpochUnslashedTargetStake_update (floor_at inc) out4)"

text \<open>
  \<^verbatim>\<open>PrepareEpochProcess\<close>. Every error return of the source hands back a nil process with
  the error, which is \<open>Inl\<close> of the error here; \<open>Inr\<close> is the finished process.
\<close>

definition new_process :: "Epoch \<Rightarrow> Epoch \<Rightarrow> nat \<Rightarrow> EpochProcess" where
  "new_process prevEpoch currentEpoch count =
     \<lparr>PrevEpoch = prevEpoch, CurrEpoch = currentEpoch,
      Statuses = replicate count zero_status,
      TotalActiveStake = 0,
      PrevEpochUnslashedStake = \<lparr>SourceStake = 0, TargetStake = 0, HeadStake = 0\<rparr>,
      CurrEpochUnslashedTargetStake = 0,
      ActiveValidators = 0,
      IndicesToSlash = [], IndicesToSetActivationEligibility = [],
      IndicesToMaybeActivate = [], IndicesToEject = [],
      ExitQueueEnd = 0, ExitQueueEndChurn = 0, ChurnLimit = 0\<rparr>"

definition exit_queue_cursor ::
    "Spec \<Rightarrow> Epoch \<Rightarrow> 64 word \<Rightarrow> EpochProcess \<Rightarrow> error + EpochProcess" where
  "exit_queue_cursor spec exitQueueEnd activeCount out =
     (let exitQueueEndChurn = exit_churn_loop exitQueueEnd (Statuses out) 0 in
      case GetChurnLimit spec activeCount of
        Inl err \<Rightarrow> Inl err
      | Inr churnLimit \<Rightarrow>
          Inr (if exitQueueEndChurn \<ge> churnLimit
               then out\<lparr>ExitQueueEndChurn := 0, ExitQueueEnd := exitQueueEnd + 1,
                        ChurnLimit := churnLimit\<rparr>
               else out\<lparr>ExitQueueEndChurn := exitQueueEndChurn, ExitQueueEnd := exitQueueEnd,
                        ChurnLimit := churnLimit\<rparr>))"

definition PrepareEpochProcess ::
    "Context \<Rightarrow> Spec \<Rightarrow> EpochsContext \<Rightarrow> BeaconState \<Rightarrow> error + EpochProcess" where
  "PrepareEpochProcess ctx spec epc state =
     (let count = length (validators state);
          prevEpoch = PreviousEpoch epc;
          currentEpoch = CurrentEpoch epc;
          slashingsEpoch = currentEpoch + EPOCHS_PER_SLASHINGS_VECTOR spec div 2;
          exitQueueEnd = ComputeActivationExitEpoch spec currentEpoch
      in
      case validators_loop ctx spec prevEpoch currentEpoch slashingsEpoch 0 (validators state)
             (new_process prevEpoch currentEpoch count, 0) of
        Inl err \<Rightarrow> Inl err
      | Inr acc \<Rightarrow>
      (let out1 = fst acc;
           activeCount = snd acc;
           out2 = out1\<lparr>IndicesToMaybeActivate :=
                    sort_Slice (maybe_activate_less (Statuses out1))
                      (IndicesToMaybeActivate out1)\<rparr>
       in
       case exit_queue_cursor spec exitQueueEnd activeCount out2 of
        Inl err \<Rightarrow> Inl err
      | Inr out3 \<Rightarrow>
      (case processEpoch (\<lambda>i. ctx (PrevAttestationPoll i)) spec epc state prevEpoch
              (previous_epoch_attestations state) prevEpoch
              PrevSourceAttester PrevTargetAttester PrevHeadAttester (Statuses out3) of
        Inl err \<Rightarrow> Inl err
      | Inr statuses4 \<Rightarrow>
      (case processEpoch (\<lambda>i. ctx (CurrAttestationPoll i)) spec epc state prevEpoch
              (current_epoch_attestations state) currentEpoch
              CurrSourceAttester CurrTargetAttester CurrHeadAttester statuses4 of
        Inl err \<Rightarrow> Inl err
      | Inr statuses5 \<Rightarrow>
          Inr (clamp_stakes spec
                 (stake_loop statuses5 (out3\<lparr>Statuses := statuses5\<rparr>)))))))"

section \<open>Descriptions used by the proofs\<close>

text \<open>
  What pass 1 computes, written as functions of the registry alone: the indices, counted
  from \<open>i\<close>, of the validators that satisfy a condition, the status of one validator after
  pass 1, and the three queue conditions of the loop body. The lemmas on
  \<open>validators_loop\<close> prove that the loop computes exactly these.
\<close>

fun indices_from :: "nat \<Rightarrow> (FlatValidator \<Rightarrow> bool) \<Rightarrow> FlatValidator list \<Rightarrow> ValidatorIndex list" where
  "indices_from i P [] = []"
| "indices_from i P (v # vs) =
     (if P v then of_nat i # indices_from (Suc i) P vs else indices_from (Suc i) P vs)"

definition pass1_status :: "Epoch \<Rightarrow> Epoch \<Rightarrow> FlatValidator \<Rightarrow> AttesterStatus" where
  "pass1_status prevEpoch currentEpoch flat =
     \<lparr>Validator = flat,
      Flags = (if Slashed flat then 0 else UnslashedAttester)
              OR (if IsActive flat prevEpoch
                     \<or> (Slashed flat \<and> prevEpoch + 1 < WithdrawableEpoch flat)
                  then EligibleAttester else 0),
      Active = IsActive flat currentEpoch,
      InclusionDelay = 0,
      AttestedProposer = ValidatorIndexMarker\<rparr>"

definition to_slash :: "Epoch \<Rightarrow> FlatValidator \<Rightarrow> bool" where
  "to_slash slashingsEpoch v \<longleftrightarrow> Slashed v \<and> slashingsEpoch = WithdrawableEpoch v"

definition to_maybe_activate :: "Epoch \<Rightarrow> FlatValidator \<Rightarrow> bool" where
  "to_maybe_activate currentEpoch v \<longleftrightarrow>
     ActivationEpoch v = FAR_FUTURE_EPOCH \<and> ActivationEligibilityEpoch v \<le> currentEpoch"

definition to_eject :: "Spec \<Rightarrow> Epoch \<Rightarrow> FlatValidator \<Rightarrow> bool" where
  "to_eject spec currentEpoch v \<longleftrightarrow>
     IsActive v currentEpoch \<and> EffectiveBalance v \<le> EJECTION_BALANCE spec
     \<and> ExitEpoch v = FAR_FUTURE_EPOCH"

text \<open>The invariant of a status at registry position \<open>k\<close> that pass 2 keeps.\<close>

definition status_inv :: "FlatValidator list \<Rightarrow> nat \<Rightarrow> AttesterStatus \<Rightarrow> bool" where
  "status_inv vals k s \<longleftrightarrow>
     Validator s = vals ! k
     \<and> (bit (Flags s) 2 \<longrightarrow> bit (Flags s) 1)
     \<and> (bit (Flags s) 5 \<longrightarrow> bit (Flags s) 4)
     \<and> (bit (Flags s) 6 \<longleftrightarrow> \<not> Slashed (vals ! k))"

section \<open>The registry churn manager (ProcessEpochRegistryUpdates)\<close>

text \<open>
  The three passes write to the registry through validator views. A pass that fails
  leaves the writes it has made: each pass hands back the registry as it stands together
  with the error, if any. \<^verbatim>\<open>vals.Validator(index)\<close> fails for an index outside the registry.
\<close>

text \<open>
  Ejections, \<^verbatim>\<open>for _, index := range process.IndicesToEject\<close>, with the running cursor
  \<^verbatim>\<open>exitEnd\<close>, \<^verbatim>\<open>endChurn\<close>.
\<close>

fun eject_loop ::
    "Spec \<Rightarrow> 64 word \<Rightarrow> ValidatorIndex list \<Rightarrow> Epoch \<Rightarrow> 64 word \<Rightarrow> FlatValidator list \<Rightarrow>
     FlatValidator list \<times> error option" where
  "eject_loop spec churnLimit [] exitEnd endChurn vals = (vals, None)"
| "eject_loop spec churnLimit (index # rest) exitEnd endChurn vals =
     (if length vals \<le> unat index then (vals, Some (ValidatorAccessErr index))
      else
        let vals1 = vals[unat index := (vals ! unat index)\<lparr>ExitEpoch := exitEnd\<rparr>];
            vals2 = vals1[unat index := (vals1 ! unat index)
                      \<lparr>WithdrawableEpoch :=
                          exitEnd + MIN_VALIDATOR_WITHDRAWABILITY_DELAY spec\<rparr>];
            endChurn1 = endChurn + 1
        in if endChurn1 \<ge> churnLimit
           then eject_loop spec churnLimit rest (exitEnd + 1) 0 vals2
           else eject_loop spec churnLimit rest exitEnd endChurn1 vals2)"

definition process_ejections ::
    "Spec \<Rightarrow> EpochProcess \<Rightarrow> FlatValidator list \<Rightarrow> FlatValidator list \<times> error option" where
  "process_ejections spec process vals =
     eject_loop spec (ChurnLimit process) (IndicesToEject process)
       (ExitQueueEnd process) (ExitQueueEndChurn process) vals"

text \<open>Eligibility, \<^verbatim>\<open>for _, index := range process.IndicesToSetActivationEligibility\<close>.\<close>

fun eligibility_loop ::
    "Epoch \<Rightarrow> ValidatorIndex list \<Rightarrow> FlatValidator list \<Rightarrow>
     FlatValidator list \<times> error option" where
  "eligibility_loop eligibilityEpoch [] vals = (vals, None)"
| "eligibility_loop eligibilityEpoch (index # rest) vals =
     (if length vals \<le> unat index then (vals, Some (ValidatorAccessErr index))
      else eligibility_loop eligibilityEpoch rest
             (vals[unat index := (vals ! unat index)
                     \<lparr>ActivationEligibilityEpoch := eligibilityEpoch\<rparr>]))"

definition process_eligibility ::
    "EpochsContext \<Rightarrow> EpochProcess \<Rightarrow> FlatValidator list \<Rightarrow>
     FlatValidator list \<times> error option" where
  "process_eligibility epc process vals =
     eligibility_loop (CurrentEpoch epc + 1) (IndicesToSetActivationEligibility process) vals"

text \<open>
  Activations, \<^verbatim>\<open>for _, index := range dequeued\<close>: the eligibility epoch is read from the
  status snapshot of the process (\<^verbatim>\<open>process.Statuses[index]\<close> panics outside the slice),
  and the loop is left at the first candidate that is not finalized yet.
\<close>

fun activation_loop ::
    "Epoch \<Rightarrow> Epoch \<Rightarrow> AttesterStatus list \<Rightarrow> ValidatorIndex list \<Rightarrow> FlatValidator list \<Rightarrow>
     FlatValidator list \<times> error option" where
  "activation_loop activationEpoch finalizedEpoch statuses [] vals = (vals, None)"
| "activation_loop activationEpoch finalizedEpoch statuses (index # rest) vals =
     (if length statuses \<le> unat index then (vals, Some PanicIndexOutOfRange)
      else if ActivationEligibilityEpoch (Validator (statuses ! unat index)) > finalizedEpoch
        then (vals, None)
      else if length vals \<le> unat index then (vals, Some (ValidatorAccessErr index))
      else activation_loop activationEpoch finalizedEpoch statuses rest
             (vals[unat index := (vals ! unat index)\<lparr>ActivationEpoch := activationEpoch\<rparr>]))"

definition process_activations ::
    "Spec \<Rightarrow> EpochsContext \<Rightarrow> EpochProcess \<Rightarrow> Epoch \<Rightarrow> FlatValidator list \<Rightarrow>
     FlatValidator list \<times> error option" where
  "process_activations spec epc process finalizedEpoch vals =
     (let dequeued = (if length (IndicesToMaybeActivate process) > unat (ChurnLimit process)
                      then take (unat (ChurnLimit process)) (IndicesToMaybeActivate process)
                      else IndicesToMaybeActivate process);
          activationEpoch = ComputeActivationExitEpoch spec (CurrentEpoch epc)
      in activation_loop activationEpoch finalizedEpoch (Statuses process) dequeued vals)"

definition ProcessEpochRegistryUpdates ::
    "Context \<Rightarrow> Spec \<Rightarrow> EpochsContext \<Rightarrow> EpochProcess \<Rightarrow> BeaconState \<Rightarrow>
     BeaconState \<times> error option" where
  "ProcessEpochRegistryUpdates ctx spec epc process state =
     (if ctx RegistryUpdatesPoll then (state, Some TransitionCancelErr)
      else
        case process_ejections spec process (validators state) of
          (vals1, Some err) \<Rightarrow> (state\<lparr>validators := vals1\<rparr>, Some err)
        | (vals1, None) \<Rightarrow>
        (case process_eligibility epc process vals1 of
          (vals2, Some err) \<Rightarrow> (state\<lparr>validators := vals2\<rparr>, Some err)
        | (vals2, None) \<Rightarrow>
        (case process_activations spec epc process
                (cp_Epoch (finalized_checkpoint state)) vals2 of
          (vals3, err) \<Rightarrow> (state\<lparr>validators := vals3\<rparr>, err))))"

section \<open>Voluntary exits (InitiateValidatorExit)\<close>

text \<open>
  The scan of the registry for the end of the exit queue: validators without an exit
  epoch are skipped, one at the current end counts, one beyond it moves the end.
\<close>

fun exit_queue_scan :: "FlatValidator list \<Rightarrow> Epoch \<Rightarrow> 64 word \<Rightarrow> Epoch \<times> 64 word" where
  "exit_queue_scan [] exitQueueEnd exitQueueEndChurn = (exitQueueEnd, exitQueueEndChurn)"
| "exit_queue_scan (val # rest) exitQueueEnd exitQueueEndChurn =
     (let valExit = ExitEpoch val in
      if valExit = FAR_FUTURE_EPOCH then exit_queue_scan rest exitQueueEnd exitQueueEndChurn
      else if valExit = exitQueueEnd
        then exit_queue_scan rest exitQueueEnd (exitQueueEndChurn + 1)
      else if valExit > exitQueueEnd then exit_queue_scan rest valExit 1
      else exit_queue_scan rest exitQueueEnd exitQueueEndChurn)"

text \<open>
  \<^verbatim>\<open>InitiateValidatorExit\<close>. Every error return comes before the first write, so the result
  is either an error or the new state.
\<close>

definition InitiateValidatorExit ::
    "Spec \<Rightarrow> EpochsContext \<Rightarrow> BeaconState \<Rightarrow> ValidatorIndex \<Rightarrow> error + BeaconState" where
  "InitiateValidatorExit spec epc state index =
     (if length (validators state) \<le> unat index then Inl (ValidatorAccessErr index)
      else if ExitEpoch (validators state ! unat index) \<noteq> FAR_FUTURE_EPOCH then Inr state
      else
        let currentEpoch = CurrentEpoch epc;
            scan = exit_queue_scan (validators state)
                     (ComputeActivationExitEpoch spec currentEpoch) 0
        in case GetChurnLimit spec (of_nat (length (ActiveIndices epc))) of
             Inl err \<Rightarrow> Inl err
           | Inr churnLimit \<Rightarrow>
               let exitEp = (if snd scan \<ge> churnLimit then fst scan + 1 else fst scan);
                   v = validators state ! unat index;
                   v1 = v\<lparr>ExitEpoch := exitEp\<rparr>;
                   v2 = v1\<lparr>WithdrawableEpoch :=
                            exitEp + MIN_VALIDATOR_WITHDRAWABILITY_DELAY spec\<rparr>
               in Inr (state\<lparr>validators := (validators state)[unat index := v2]\<rparr>))"

text \<open>
  The pair (activation eligibility epoch, validator index) of a queued index, packed into
  one natural number: the maybe-activate comparison is the order of these numbers.
\<close>

definition maybe_activate_key :: "AttesterStatus list \<Rightarrow> ValidatorIndex \<Rightarrow> nat" where
  "maybe_activate_key statuses x =
     unat (ActivationEligibilityEpoch (Validator (statuses ! unat x))) * 2 ^ 64 + unat x"

section \<open>Concrete inputs\<close>

text \<open>
  A configuration with the constants of the protocol's main network, a validator that has
  been active since genesis, and a state around a given registry. They are the inputs at
  which the theorems below are instantiated.
\<close>

definition example_spec :: Spec where
  "example_spec =
     \<lparr>MAX_VALIDATORS_PER_COMMITTEE = 2048, EPOCHS_PER_SLASHINGS_VECTOR = 8192,
      MAX_EFFECTIVE_BALANCE = 32000000000, EJECTION_BALANCE = 16000000000,
      EFFECTIVE_BALANCE_INCREMENT = 1000000000, MIN_PER_EPOCH_CHURN_LIMIT = 4,
      CHURN_LIMIT_QUOTIENT = 65536, MIN_VALIDATOR_WITHDRAWABILITY_DELAY = 256,
      MAX_SEED_LOOKAHEAD = 4, EpochStartSlot = (\<lambda>epoch. Inr (epoch * 32))\<rparr>"

definition example_validator :: FlatValidator where
  "example_validator =
     \<lparr>EffectiveBalance = 32000000000, Slashed = False, ActivationEligibilityEpoch = 0,
      ActivationEpoch = 0, ExitEpoch = FAR_FUTURE_EPOCH,
      WithdrawableEpoch = FAR_FUTURE_EPOCH\<rparr>"

definition example_data :: AttestationData where
  "example_data =
     \<lparr>Slot = 0, Index = 0, BeaconBlockRoot = 1,
      Source = \<lparr>cp_Epoch = 0, cp_Root = 1\<rparr>, Target = \<lparr>cp_Epoch = 0, cp_Root = 1\<rparr>\<rparr>"

definition example_state :: "FlatValidator list \<Rightarrow> BeaconState" where
  "example_state vals =
     \<lparr>validators = vals, previous_epoch_attestations = [],
      current_epoch_attestations = [],
      finalized_checkpoint = \<lparr>cp_Epoch = 0, cp_Root = 1\<rparr>,
      GetBlockRootAtSlot = (\<lambda>slot. Inr 1), IsValidIndex_error = None\<rparr>"

definition example_indexed :: "ValidatorIndex list \<Rightarrow> IndexedAttestation" where
  "example_indexed indices =
     \<lparr>AttestingIndices = indices, ia_Data = example_data, Signature = 0\<rparr>"

definition never_cancelled :: Context where
  "never_cancelled = (\<lambda>site. False)"

definition example_epc :: EpochsContext where
  "example_epc =
     \<lparr>PreviousEpoch = 9, CurrentEpoch = 10, ActiveIndices = [0, 1],
      GetBeaconCommittee = (\<lambda>slot index. Inr [0, 1])\<rparr>"

definition example_attestation :: PendingAttestation where
  "example_attestation =
     \<lparr>AggregationBits = [True, True], Data = example_data, att_InclusionDelay = 1,
      ProposerIndex = 0\<rparr>"

definition attested_state :: "FlatValidator list \<Rightarrow> BeaconState" where
  "attested_state vals =
     (example_state vals)\<lparr>previous_epoch_attestations := [example_attestation],
                            current_epoch_attestations := [example_attestation]\<rparr>"

definition slashed_validator :: "Epoch \<Rightarrow> FlatValidator" where
  "slashed_validator withdrawable =
     example_validator\<lparr>Slashed := True, ExitEpoch := 5, WithdrawableEpoch := withdrawable\<rparr>"

definition exiting_validator :: "Epoch \<Rightarrow> FlatValidator" where
  "exiting_validator exit = example_validator\<lparr>ExitEpoch := exit, WithdrawableEpoch := exit + 256\<rparr>"

definition low_balance :: "FlatValidator \<Rightarrow> FlatValidator" where
  "low_balance v = v\<lparr>EffectiveBalance := 16000000000\<rparr>"

definition pending_validator :: "Epoch \<Rightarrow> FlatValidator" where
  "pending_validator eligibility =
     example_validator\<lparr>ActivationEligibilityEpoch := eligibility,
                       ActivationEpoch := FAR_FUTURE_EPOCH\<rparr>"


section \<open>Properties of the index-set validation\<close>

lemma IsSorted_sorted: "IsSorted xs = sorted xs"
proof (induction xs rule: IsSorted.induct)
  case (1 x y zs)
  then show ?case by (simp add: not_less sorted2 del: sorted_wrt.simps)
qed simp_all

lemma dup_scan_None:
  "dup_scan i p xs = None \<longleftrightarrow> (\<forall>k. Suc k < length (p # xs) \<longrightarrow> (p # xs) ! k \<noteq> (p # xs) ! Suc k)"
proof (induction xs arbitrary: i p)
  case Nil
  then show ?case by simp
next
  case (Cons x xs)
  show ?case
  proof (cases "p = x")
    case True
    then show ?thesis by auto
  next
    case False
    have "(\<forall>k. Suc k < length (p # x # xs) \<longrightarrow> (p # x # xs) ! k \<noteq> (p # x # xs) ! Suc k)
      \<longleftrightarrow> (\<forall>k. Suc k < length (x # xs) \<longrightarrow> (x # xs) ! k \<noteq> (x # xs) ! Suc k)"
      (is "?L \<longleftrightarrow> ?R")
    proof
      assume l: ?L
      show ?R
      proof (intro allI impI)
        fix k assume "Suc k < length (x # xs)"
        then have "(p # x # xs) ! Suc k \<noteq> (p # x # xs) ! Suc (Suc k)"
          using l by (metis Suc_less_eq length_Cons)
        then show "(x # xs) ! k \<noteq> (x # xs) ! Suc k" by simp
      qed
    next
      assume r: ?R
      show ?L
      proof (intro allI impI)
        fix k assume k: "Suc k < length (p # x # xs)"
        show "(p # x # xs) ! k \<noteq> (p # x # xs) ! Suc k"
        proof (cases k)
          case 0
          then show ?thesis using False by simp
        next
          case (Suc j)
          then have "Suc j < length (x # xs)" using k by simp
          then have "(x # xs) ! j \<noteq> (x # xs) ! Suc j" using r by blast
          then show ?thesis using Suc by simp
        qed
      qed
    qed
    then show ?thesis using False Cons.IH [of "Suc i" x] by simp
  qed
qed

lemma indices_set_error_Cons:
  "AttestingIndices a = x # xs \<Longrightarrow>
   (\<exists>err. ValidateIndexedAttestationIndicesSet spec a = Inl err) \<longleftrightarrow>
     (length (AttestingIndices a) > unat (MAX_VALIDATORS_PER_COMMITTEE spec)
      \<or> \<not> IsSorted (AttestingIndices a)
      \<or> dup_scan 1 x xs \<noteq> None)"
  by (auto simp add: ValidateIndexedAttestationIndicesSet_def Let_def
      simp del: IsSorted.simps split: option.splits)

lemma indices_set_error_iff:
  "(\<exists>err. ValidateIndexedAttestationIndicesSet spec a = Inl err) \<longleftrightarrow>
     (length (AttestingIndices a) > unat (MAX_VALIDATORS_PER_COMMITTEE spec)
      \<or> AttestingIndices a = []
      \<or> \<not> sorted (AttestingIndices a)
      \<or> (\<exists>k. Suc k < length (AttestingIndices a)
            \<and> AttestingIndices a ! k = AttestingIndices a ! Suc k))"
proof (cases "AttestingIndices a")
  case Nil
  then show ?thesis by (simp add: ValidateIndexedAttestationIndicesSet_def)
next
  case (Cons x xs)
  have d: "dup_scan 1 x xs \<noteq> None \<longleftrightarrow>
      (\<exists>k. Suc k < length (AttestingIndices a)
         \<and> AttestingIndices a ! k = AttestingIndices a ! Suc k)"
    unfolding Cons dup_scan_None [of 1 x xs] by blast
  have n: "AttestingIndices a \<noteq> []" using Cons by simp
  show ?thesis
    unfolding indices_set_error_Cons [OF Cons] d IsSorted_sorted using n by blast
qed

lemma indices_set_ok_unchanged:
  "ValidateIndexedAttestationIndicesSet spec a = Inr r \<Longrightarrow> r = AttestingIndices a"
  by (auto simp: ValidateIndexedAttestationIndicesSet_def Let_def
      split: if_splits option.splits)

lemma indices_set_ok_nonempty:
  "ValidateIndexedAttestationIndicesSet spec a = Inr r \<Longrightarrow> r \<noteq> []"
  by (auto simp: ValidateIndexedAttestationIndicesSet_def Let_def
      split: if_splits option.splits)

lemma no_signature_error_iff:
  "(\<exists>err. ValidateIndexedAttestationNoSignature spec state a = Inl err) \<longleftrightarrow>
     ((\<exists>err. ValidateIndexedAttestationIndicesSet spec a = Inl err)
      \<or> IsValidIndex_error state \<noteq> None
      \<or> \<not> unat (last (AttestingIndices a)) < length (validators state))"
proof (cases "ValidateIndexedAttestationIndicesSet spec a")
  case (Inl e)
  then show ?thesis by (simp add: ValidateIndexedAttestationNoSignature_def)
next
  case (Inr r)
  then have r: "r = AttestingIndices a" "r \<noteq> []"
    by (simp_all add: indices_set_ok_unchanged indices_set_ok_nonempty)
  then have "r ! (length r - 1) = last r"
    by (simp add: last_conv_nth)
  then show ?thesis
    using Inr r
    by (auto simp add: ValidateIndexedAttestationNoSignature_def IsValidIndex_def
        split: option.splits)
qed

text \<open>
  C1, as stated: validation without signature returns an error if and only if the index
  sequence is too long, empty, unsorted, has two equal adjacent entries, or ends in an
  index outside the registry. Against a state whose \<open>IsValidIndex\<close> read fails, the
  sequence \<open>[1, 2]\<close> is within the bound, not empty, sorted, free of duplicates and ends
  inside a registry of four validators, and the validation returns the error of the read.
\<close>

theorem failing_state_read_is_an_error:
  "ValidateIndexedAttestationNoSignature example_spec
     ((example_state (replicate 4 example_validator))\<lparr>IsValidIndex_error := Some (External 0)\<rparr>)
     (example_indexed [1, 2]) = Inl (External 0)
   \<and> length (AttestingIndices (example_indexed [1, 2]))
       \<le> unat (MAX_VALIDATORS_PER_COMMITTEE example_spec)
   \<and> AttestingIndices (example_indexed [1, 2]) \<noteq> []
   \<and> sorted (AttestingIndices (example_indexed [1, 2]))
   \<and> AttestingIndices (example_indexed [1, 2]) ! 0 \<noteq> AttestingIndices (example_indexed [1, 2]) ! 1
   \<and> unat (last (AttestingIndices (example_indexed [1, 2])))
       < length (validators ((example_state (replicate 4 example_validator))
                   \<lparr>IsValidIndex_error := Some (External 0)\<rparr>))"
  by (simp add: ValidateIndexedAttestationNoSignature_def
      ValidateIndexedAttestationIndicesSet_def IsValidIndex_def
      example_indexed_def example_state_def example_spec_def)

text \<open>
  C1, amended. Validation without signature returns an error if and only if the
  attesting-index sequence has more than \<open>MAX_VALIDATORS_PER_COMMITTEE\<close> entries, or is
  empty, or is not sorted ascending, or has two equal adjacent entries, or the read of the
  state behind \<open>IsValidIndex\<close> fails, or its last index is not a valid registry index; when
  the index-set validation succeeds it returns the indices as they are. In particular
  \<open>[]\<close>, \<open>[5,3]\<close> and \<open>[3,3]\<close> are errors for every configuration and state, and \<open>[1,3,5]\<close> is
  an error against every registry of size 4.
\<close>

theorem validate_indexed_attestation_error_causes:
  "((\<exists>err. ValidateIndexedAttestationNoSignature spec state a = Inl err) \<longleftrightarrow>
      (length (AttestingIndices a) > unat (MAX_VALIDATORS_PER_COMMITTEE spec)
       \<or> AttestingIndices a = []
       \<or> \<not> sorted (AttestingIndices a)
       \<or> (\<exists>k. Suc k < length (AttestingIndices a)
             \<and> AttestingIndices a ! k = AttestingIndices a ! Suc k)
       \<or> IsValidIndex_error state \<noteq> None
       \<or> \<not> unat (last (AttestingIndices a)) < length (validators state)))
   \<and> (\<forall>r. ValidateIndexedAttestationIndicesSet spec a = Inr r \<longrightarrow> r = AttestingIndices a)
   \<and> (AttestingIndices a = [] \<longrightarrow>
        (\<exists>err. ValidateIndexedAttestationNoSignature spec state a = Inl err))
   \<and> (AttestingIndices a = [5, 3] \<longrightarrow>
        (\<exists>err. ValidateIndexedAttestationNoSignature spec state a = Inl err))
   \<and> (AttestingIndices a = [3, 3] \<longrightarrow>
        (\<exists>err. ValidateIndexedAttestationNoSignature spec state a = Inl err))
   \<and> (AttestingIndices a = [1, 3, 5] \<and> length (validators state) = 4 \<longrightarrow>
        (\<exists>err. ValidateIndexedAttestationNoSignature spec state a = Inl err))"
proof -
  have main: "(\<exists>err. ValidateIndexedAttestationNoSignature spec state a = Inl err) \<longleftrightarrow>
      (length (AttestingIndices a) > unat (MAX_VALIDATORS_PER_COMMITTEE spec)
       \<or> AttestingIndices a = []
       \<or> \<not> sorted (AttestingIndices a)
       \<or> (\<exists>k. Suc k < length (AttestingIndices a)
             \<and> AttestingIndices a ! k = AttestingIndices a ! Suc k)
       \<or> IsValidIndex_error state \<noteq> None
       \<or> \<not> unat (last (AttestingIndices a)) < length (validators state))"
    unfolding no_signature_error_iff indices_set_error_iff by blast
  have e1: "AttestingIndices a = [] \<longrightarrow>
      (\<exists>err. ValidateIndexedAttestationNoSignature spec state a = Inl err)"
    unfolding main by simp
  have e2: "AttestingIndices a = [5, 3] \<longrightarrow>
      (\<exists>err. ValidateIndexedAttestationNoSignature spec state a = Inl err)"
    unfolding main by simp
  have e3: "AttestingIndices a = [3, 3] \<longrightarrow>
      (\<exists>err. ValidateIndexedAttestationNoSignature spec state a = Inl err)"
  proof
    assume h: "AttestingIndices a = [3, 3]"
    then have "Suc 0 < length (AttestingIndices a)
        \<and> AttestingIndices a ! 0 = AttestingIndices a ! Suc 0"
      by simp
    then show "\<exists>err. ValidateIndexedAttestationNoSignature spec state a = Inl err"
      unfolding main by blast
  qed
  have e4: "AttestingIndices a = [1, 3, 5] \<and> length (validators state) = 4 \<longrightarrow>
      (\<exists>err. ValidateIndexedAttestationNoSignature spec state a = Inl err)"
    unfolding main by simp
  have ok: "\<forall>r. ValidateIndexedAttestationIndicesSet spec a = Inr r \<longrightarrow> r = AttestingIndices a"
    by (simp add: indices_set_ok_unchanged)
  from main ok e1 e2 e3 e4 show ?thesis
    by (intro conjI)
qed

theorem validate_indexed_attestation_error_causes_witness:
  "(\<exists>err. ValidateIndexedAttestationNoSignature example_spec
            (example_state (replicate 4 example_validator)) (example_indexed [1, 3, 5]) = Inl err)
   \<and> \<not> (\<exists>err. ValidateIndexedAttestationNoSignature example_spec
            (example_state (replicate 4 example_validator)) (example_indexed [1, 2]) = Inl err)
   \<and> ValidateIndexedAttestationIndicesSet example_spec (example_indexed [1, 2]) = Inr [1, 2]"
proof -
  have a: "\<exists>err. ValidateIndexedAttestationNoSignature example_spec
            (example_state (replicate 4 example_validator)) (example_indexed [1, 3, 5]) = Inl err"
    using validate_indexed_attestation_error_causes
      [of example_spec "example_state (replicate 4 example_validator)" "example_indexed [1, 3, 5]"]
    by (simp add: example_indexed_def example_state_def)
  have k: "\<not> (\<exists>k. Suc k < 2 \<and> [1, 2 :: 64 word] ! k = [1, 2] ! Suc k)"
    by (simp add: less_Suc_eq)
  have b: "\<not> (\<exists>err. ValidateIndexedAttestationNoSignature example_spec
            (example_state (replicate 4 example_validator)) (example_indexed [1, 2]) = Inl err)"
    using k validate_indexed_attestation_error_causes
      [of example_spec "example_state (replicate 4 example_validator)" "example_indexed [1, 2]"]
    by (simp add: example_indexed_def example_state_def example_spec_def)
  have c: "ValidateIndexedAttestationIndicesSet example_spec (example_indexed [1, 2]) = Inr [1, 2]"
    by (simp add: ValidateIndexedAttestationIndicesSet_def example_indexed_def example_spec_def)
  show ?thesis using a b c by blast
qed

section \<open>Pass 1 computes the statuses and the queues\<close>

lemma validator_status_zero:
  "validator_status pe ce flat zero_status = pass1_status pe ce flat"
  by (simp add: validator_status_def pass1_status_def zero_status_def Let_def)

lemma validator_step_Statuses:
  "Statuses out ! i = zero_status \<Longrightarrow>
   Statuses (fst (validator_step spec pe ce se i flat (out, ac))) =
     (Statuses out)[i := pass1_status pe ce flat]"
  by (simp add: validator_step_def Let_def validator_status_zero)

lemma validator_step_IndicesToSlash:
  "IndicesToSlash (fst (validator_step spec pe ce se i flat (out, ac))) =
     IndicesToSlash out @ indices_from i (to_slash se) [flat]"
  by (simp add: validator_step_def Let_def to_slash_def append_if_def)

lemma validator_step_IndicesToMaybeActivate:
  "IndicesToMaybeActivate (fst (validator_step spec pe ce se i flat (out, ac))) =
     IndicesToMaybeActivate out @ indices_from i (to_maybe_activate ce) [flat]"
  by (simp add: validator_step_def Let_def to_maybe_activate_def append_if_def)

lemma validator_status_Active:
  "Active (validator_status pe ce flat status) = IsActive flat ce"
  by (simp add: validator_status_def Let_def)

lemma validator_step_IndicesToEject:
  "IndicesToEject (fst (validator_step spec pe ce se i flat (out, ac))) =
     IndicesToEject out @ indices_from i (to_eject spec ce) [flat]"
  by (simp add: validator_step_def Let_def to_eject_def append_if_def validator_status_Active)

lemma validator_step_activeCount:
  "snd (validator_step spec pe ce se i flat (out, ac)) =
     ac + of_nat (length (filter (\<lambda>v. IsActive v ce) [flat]))"
  by (simp add: validator_step_def Let_def add_if_def validator_status_Active)

lemma unat_of_nat64: "k < 2 ^ 64 \<Longrightarrow> unat (of_nat k :: 64 word) = k"
  by (simp add: unat_of_nat)

lemma of_nat_less64: "a < b \<Longrightarrow> b < 2 ^ 64 \<Longrightarrow> (of_nat a :: 64 word) < of_nat b"
  by (simp add: word_less_nat_alt unat_of_nat)

lemma indices_from_Cons:
  "indices_from i P (v # vs) = indices_from i P [v] @ indices_from (Suc i) P vs"
  by simp

lemma validators_loop_result:
  "validators_loop ctx spec pe ce se i rest (out, ac) = Inr (out', ac') \<Longrightarrow>
   length (Statuses out) = i + length rest \<Longrightarrow>
   (\<forall>k. i \<le> k \<and> k < i + length rest \<longrightarrow> Statuses out ! k = zero_status) \<Longrightarrow>
   Statuses out' = take i (Statuses out) @ map (pass1_status pe ce) rest
   \<and> IndicesToSlash out' = IndicesToSlash out @ indices_from i (to_slash se) rest
   \<and> IndicesToMaybeActivate out' =
       IndicesToMaybeActivate out @ indices_from i (to_maybe_activate ce) rest
   \<and> IndicesToEject out' = IndicesToEject out @ indices_from i (to_eject spec ce) rest
   \<and> ac' = ac + of_nat (length (filter (\<lambda>v. IsActive v ce) rest))"
proof (induction rest arbitrary: i out ac)
  case Nil
  then show ?case by (simp split: if_splits)
next
  case (Cons flat rest)
  obtain out1 ac1 where st: "validator_step spec pe ce se i flat (out, ac) = (out1, ac1)"
    by (cases "validator_step spec pe ce se i flat (out, ac)")
  have z: "Statuses out ! i = zero_status" using Cons.prems(3) by simp
  have s1: "Statuses out1 = (Statuses out)[i := pass1_status pe ce flat]"
    using validator_step_Statuses [OF z, of spec pe ce se flat ac] st by simp
  have q1: "IndicesToSlash out1 = IndicesToSlash out @ indices_from i (to_slash se) [flat]"
    using validator_step_IndicesToSlash [of spec pe ce se i flat out ac] st by simp
  have q2: "IndicesToMaybeActivate out1 =
      IndicesToMaybeActivate out @ indices_from i (to_maybe_activate ce) [flat]"
    using validator_step_IndicesToMaybeActivate [of spec pe ce se i flat out ac] st by simp
  have q3: "IndicesToEject out1 = IndicesToEject out @ indices_from i (to_eject spec ce) [flat]"
    using validator_step_IndicesToEject [of spec pe ce se i flat out ac] st by simp
  have a1: "ac1 = ac + of_nat (length (filter (\<lambda>v. IsActive v ce) [flat]))"
    using validator_step_activeCount [of spec pe ce se i flat out ac] st by simp
  have run: "validators_loop ctx spec pe ce se (Suc i) rest (out1, ac1) = Inr (out', ac')"
    using Cons.prems(1) st by (simp split: if_splits)
  have len: "length (Statuses out1) = Suc i + length rest"
    using s1 Cons.prems(2) by simp
  have zero: "\<forall>k. Suc i \<le> k \<and> k < Suc i + length rest \<longrightarrow> Statuses out1 ! k = zero_status"
    using s1 Cons.prems(3) by simp
  note IH = Cons.IH [OF run len zero]
  have i: "i < length (Statuses out)" using Cons.prems(2) by simp
  have tk: "take (Suc i) (Statuses out1) = take i (Statuses out) @ [pass1_status pe ce flat]"
    unfolding s1 using i by (simp add: take_Suc_conv_app_nth)
  show ?case
  proof (intro conjI)
    show "Statuses out' = take i (Statuses out) @ map (pass1_status pe ce) (flat # rest)"
      using IH tk by simp
    show "IndicesToSlash out' = IndicesToSlash out @ indices_from i (to_slash se) (flat # rest)"
      using IH q1 by (subst indices_from_Cons) simp
    show "IndicesToMaybeActivate out' =
        IndicesToMaybeActivate out @ indices_from i (to_maybe_activate ce) (flat # rest)"
      using IH q2 by (subst indices_from_Cons) simp
    show "IndicesToEject out' = IndicesToEject out @ indices_from i (to_eject spec ce) (flat # rest)"
      using IH q3 by (subst indices_from_Cons) simp
    show "ac' = ac + of_nat (length (filter (\<lambda>v. IsActive v ce) (flat # rest)))"
      using IH a1 by simp
  qed
qed

lemma pass1_result:
  assumes "validators_loop ctx spec pe ce se 0 vals (new_process pe ce (length vals), 0)
             = Inr (out1, ac)"
  shows "Statuses out1 = map (pass1_status pe ce) vals"
    and "IndicesToSlash out1 = indices_from 0 (to_slash se) vals"
    and "IndicesToMaybeActivate out1 = indices_from 0 (to_maybe_activate ce) vals"
    and "IndicesToEject out1 = indices_from 0 (to_eject spec ce) vals"
    and "ac = of_nat (length (filter (\<lambda>v. IsActive v ce) vals))"
  using validators_loop_result [OF assms] by (simp_all add: new_process_def)

lemma indices_from_set:
  "x \<in> set (indices_from i P vs) \<longleftrightarrow> (\<exists>k<length vs. P (vs ! k) \<and> x = of_nat (i + k))"
proof (induction vs arbitrary: i)
  case Nil
  then show ?case by simp
next
  case (Cons v vs)
  have split: "(\<exists>k<length (v # vs). P ((v # vs) ! k) \<and> x = of_nat (i + k)) \<longleftrightarrow>
      (P v \<and> x = of_nat i) \<or> (\<exists>k<length vs. P (vs ! k) \<and> x = of_nat (Suc i + k))"
    (is "?L \<longleftrightarrow> ?R")
  proof
    assume ?L
    then obtain k where k: "k < length (v # vs)" "P ((v # vs) ! k)" "x = of_nat (i + k)"
      by blast
    show ?R
    proof (cases k)
      case 0
      then show ?thesis using k by simp
    next
      case (Suc j)
      then have "j < length vs" "P (vs ! j)" "x = of_nat (Suc i + j)" using k by simp_all
      then show ?thesis by blast
    qed
  next
    assume ?R
    then show ?L
    proof
      assume "P v \<and> x = of_nat i"
      then have "0 < length (v # vs) \<and> P ((v # vs) ! 0) \<and> x = of_nat (i + 0)" by simp
      then show ?L by blast
    next
      assume "\<exists>k<length vs. P (vs ! k) \<and> x = of_nat (Suc i + k)"
      then obtain j where "j < length vs" "P (vs ! j)" "x = of_nat (Suc i + j)" by blast
      then have "Suc j < length (v # vs) \<and> P ((v # vs) ! Suc j) \<and> x = of_nat (i + Suc j)"
        by simp
      then show ?L by blast
    qed
  qed
  show ?case unfolding split using Cons.IH [of "Suc i"] by auto
qed

lemma indices_from_ascending:
  "i + length vs \<le> 2 ^ 64 \<Longrightarrow> sorted_wrt (<) (indices_from i P vs)"
proof (induction vs arbitrary: i)
  case Nil
  then show ?case by simp
next
  case (Cons v vs)
  have IH: "sorted_wrt (<) (indices_from (Suc i) P vs)"
    using Cons.IH [of "Suc i"] Cons.prems by simp
  have above: "\<forall>x \<in> set (indices_from (Suc i) P vs). (of_nat i :: 64 word) < x"
  proof
    fix x assume "x \<in> set (indices_from (Suc i) P vs)"
    then obtain k where k: "k < length vs" "x = of_nat (Suc i + k)"
      unfolding indices_from_set by blast
    have "Suc i + k < 2 ^ 64" using k(1) Cons.prems by simp
    then have "(of_nat i :: 64 word) < of_nat (Suc i + k)"
      by (intro of_nat_less64) simp_all
    then show "(of_nat i :: 64 word) < x" using k(2) by simp
  qed
  show ?case using IH above by simp
qed

lemma indices_from_distinct:
  "i + length vs \<le> 2 ^ 64 \<Longrightarrow> distinct (indices_from i P vs)"
  using indices_from_ascending [of i vs P] strict_sorted_iff by blast

lemma indices_from_unat:
  assumes "length vs \<le> 2 ^ 64" "x \<in> set (indices_from 0 P vs)"
  shows "unat x < length vs \<and> P (vs ! unat x)"
proof -
  obtain k where k: "k < length vs" "P (vs ! k)" "x = of_nat k"
    using assms(2) unfolding indices_from_set by auto
  have "k < 2 ^ 64" using k(1) assms(1) by simp
  then have "unat x = k" using k(3) by (simp add: unat_of_nat64)
  then show ?thesis using k by simp
qed

lemma indices_from_member:
  assumes "length vs \<le> 2 ^ 64" "k < length vs"
  shows "of_nat k \<in> set (indices_from 0 P vs) \<longleftrightarrow> P (vs ! k)"
proof
  assume "of_nat k \<in> set (indices_from 0 P vs)"
  then have "P (vs ! unat (of_nat k :: 64 word))"
    using indices_from_unat [OF assms(1)] by blast
  moreover have "k < 2 ^ 64" using assms by simp
  ultimately show "P (vs ! k)" by (simp add: unat_of_nat64)
next
  assume "P (vs ! k)"
  then show "of_nat k \<in> set (indices_from 0 P vs)"
    unfolding indices_from_set using assms(2) by auto
qed

section \<open>Flags as bits\<close>

lemma single_bit: "n < 8 \<Longrightarrow> bit (push_bit n 1 :: 8 word) m \<longleftrightarrow> m = n"
  by (auto simp add: bit_exp_iff)

lemma HasMarkers_bit: "n < 8 \<Longrightarrow> HasMarkers f (push_bit n 1) \<longleftrightarrow> bit f n"
proof -
  assume n: "n < 8"
  show ?thesis
    unfolding HasMarkers_def
  proof
    assume "f AND push_bit n 1 = push_bit n 1"
    then have "bit (f AND push_bit n 1) n = bit (push_bit n 1 :: 8 word) n"
      by simp
    then show "bit f n"
      by (simp only: bit_and_iff single_bit [OF n]) simp
  next
    assume f: "bit f n"
    show "f AND push_bit n 1 = push_bit n 1"
    proof (rule bit_eqI)
      fix m
      show "bit (f AND push_bit n 1) m = bit (push_bit n 1 :: 8 word) m"
        using f by (simp only: bit_and_iff single_bit [OF n]) auto
    qed
  qed
qed

lemma flag_bits:
  "HasMarkers f PrevSourceAttester \<longleftrightarrow> bit f 0"
  "HasMarkers f PrevTargetAttester \<longleftrightarrow> bit f 1"
  "HasMarkers f PrevHeadAttester \<longleftrightarrow> bit f 2"
  "HasMarkers f CurrSourceAttester \<longleftrightarrow> bit f 3"
  "HasMarkers f CurrTargetAttester \<longleftrightarrow> bit f 4"
  "HasMarkers f CurrHeadAttester \<longleftrightarrow> bit f 5"
  "HasMarkers f UnslashedAttester \<longleftrightarrow> bit f 6"
  "HasMarkers f EligibleAttester \<longleftrightarrow> bit f 7"
  unfolding PrevSourceAttester_def PrevTargetAttester_def PrevHeadAttester_def
    CurrSourceAttester_def CurrTargetAttester_def CurrHeadAttester_def
    UnslashedAttester_def EligibleAttester_def
  by (rule HasMarkers_bit, simp)+

lemma flag_const_bits:
  "bit PrevSourceAttester n \<longleftrightarrow> n = 0"
  "bit PrevTargetAttester n \<longleftrightarrow> n = 1"
  "bit PrevHeadAttester n \<longleftrightarrow> n = 2"
  "bit CurrSourceAttester n \<longleftrightarrow> n = 3"
  "bit CurrTargetAttester n \<longleftrightarrow> n = 4"
  "bit CurrHeadAttester n \<longleftrightarrow> n = 5"
  "bit UnslashedAttester n \<longleftrightarrow> n = 6"
  "bit EligibleAttester n \<longleftrightarrow> n = 7"
  unfolding PrevSourceAttester_def PrevTargetAttester_def PrevHeadAttester_def
    CurrSourceAttester_def CurrTargetAttester_def CurrHeadAttester_def
    UnslashedAttester_def EligibleAttester_def
  by (rule single_bit, simp)+

lemma status_inv_pass1: "status_inv vals k (pass1_status pe ce (vals ! k))"
  by (simp add: status_inv_def pass1_status_def bit_or_iff flag_const_bits)

lemma status_inv_note_inclusion:
  "status_inv vals k s \<Longrightarrow> status_inv vals k (note_inclusion att s)"
  by (simp add: status_inv_def note_inclusion_def)

lemma status_inv_mark_prev:
  "status_inv vals k s \<Longrightarrow>
   status_inv vals k
     (mark_attester att r1 r2 PrevSourceAttester PrevTargetAttester PrevHeadAttester s)"
  by (simp add: status_inv_def mark_attester_def Let_def bit_or_iff flag_const_bits)

lemma status_inv_mark_curr:
  "status_inv vals k s \<Longrightarrow>
   status_inv vals k
     (mark_attester att r1 r2 CurrSourceAttester CurrTargetAttester CurrHeadAttester s)"
  by (simp add: status_inv_def mark_attester_def Let_def bit_or_iff flag_const_bits)

section \<open>Pass 2 keeps an invariant of the statuses\<close>

lemma inclusion_loop_preserves:
  assumes step: "\<And>k s. P k s \<Longrightarrow> P k (note_inclusion att s)"
  shows "inclusion_loop att ps S = Inr S' \<Longrightarrow> (\<forall>k<length S. P k (S ! k)) \<Longrightarrow>
         length S' = length S \<and> (\<forall>k<length S. P k (S' ! k))"
proof (induction ps arbitrary: S)
  case Nil
  then show ?case by simp
next
  case (Cons p ps)
  let ?S1 = "S[unat p := note_inclusion att (S ! unat p)]"
  have p: "unat p < length S" and run: "inclusion_loop att ps ?S1 = Inr S'"
    using Cons.prems(1) by (simp_all split: if_splits)
  have "\<forall>k<length ?S1. P k (?S1 ! k)"
    using Cons.prems(2) step p by (simp add: nth_list_update)
  from Cons.IH [OF run this] show ?case by simp
qed

lemma flags_loop_preserves:
  assumes step: "\<And>k s. P k s \<Longrightarrow> P k (mark_attester att r1 r2 sF tF hF s)"
  shows "flags_loop att r1 r2 sF tF hF ps S = Inr S' \<Longrightarrow> (\<forall>k<length S. P k (S ! k)) \<Longrightarrow>
         length S' = length S \<and> (\<forall>k<length S. P k (S' ! k))"
proof (induction ps arbitrary: S)
  case Nil
  then show ?case by simp
next
  case (Cons p ps)
  let ?S1 = "S[unat p := mark_attester att r1 r2 sF tF hF (S ! unat p)]"
  have p: "unat p < length S" and run: "flags_loop att r1 r2 sF tF hF ps ?S1 = Inr S'"
    using Cons.prems(1) by (simp_all split: if_splits)
  have "\<forall>k<length ?S1. P k (?S1 ! k)"
    using Cons.prems(2) step p by (simp add: nth_list_update)
  from Cons.IH [OF run this] show ?case by simp
qed

lemma attestations_loop_preserves:
  assumes inc: "\<And>att k s. P k s \<Longrightarrow> P k (note_inclusion att s)"
    and mark: "\<And>att r1 r2 k s. P k s \<Longrightarrow> P k (mark_attester att r1 r2 sF tF hF s)"
  shows "attestations_loop dn epc state pe e sF tF hF root i atts S = Inr S' \<Longrightarrow>
         (\<forall>k<length S. P k (S ! k)) \<Longrightarrow>
         length S' = length S \<and> (\<forall>k<length S. P k (S' ! k))"
proof (induction atts arbitrary: i S)
  case Nil
  then show ?case by (simp split: if_splits)
next
  case (Cons att atts)
  from Cons.prems(1) obtain r2 committee S1 S2 where
    r2: "GetBlockRootAtSlot state (Slot (Data att)) = Inr r2"
    and cm: "GetBeaconCommittee epc (Slot (Data att)) (Index (Data att)) = Inr committee"
    and s1: "(if e = pe
              then inclusion_loop att (FilterParticipants (AggregationBits att) committee) S
              else Inr S) = Inr S1"
    and s2: "flags_loop att root r2 sF tF hF
               (FilterParticipants (AggregationBits att) committee) S1 = Inr S2"
    and run: "attestations_loop dn epc state pe e sF tF hF root (Suc i) atts S2 = Inr S'"
    by (auto simp add: Let_def split: if_splits sum.splits)
  have i1: "length S1 = length S \<and> (\<forall>k<length S. P k (S1 ! k))"
  proof (cases "e = pe")
    case True
    then have "inclusion_loop att (FilterParticipants (AggregationBits att) committee) S = Inr S1"
      using s1 by simp
    from inclusion_loop_preserves [where P = P, OF inc this Cons.prems(2)] show ?thesis .
  next
    case False
    then show ?thesis using s1 Cons.prems(2) by simp
  qed
  then have p1: "\<forall>k<length S1. P k (S1 ! k)" by simp
  have i2: "length S2 = length S1 \<and> (\<forall>k<length S1. P k (S2 ! k))"
    using flags_loop_preserves [where P = P, OF mark s2 p1] .
  then have p2: "\<forall>k<length S2. P k (S2 ! k)" by simp
  from Cons.IH [OF run p2] i1 i2 show ?case by simp
qed

lemma processEpoch_preserves:
  assumes inc: "\<And>att k s. P k s \<Longrightarrow> P k (note_inclusion att s)"
    and mark: "\<And>att r1 r2 k s. P k s \<Longrightarrow> P k (mark_attester att r1 r2 sF tF hF s)"
    and run: "processEpoch dn spec epc state pe atts e sF tF hF S = Inr S'"
    and inv: "\<forall>k<length S. P k (S ! k)"
  shows "length S' = length S \<and> (\<forall>k<length S. P k (S' ! k))"
proof -
  from run obtain root where
    "attestations_loop dn epc state pe e sF tF hF root 0 atts S = Inr S'"
    by (auto simp add: processEpoch_def split: sum.splits)
  from attestations_loop_preserves [where P = P, OF inc mark this inv] show ?thesis .
qed

section \<open>The stake sums and the floors touch nothing else\<close>

lemma stake_step_frame:
  "Statuses (stake_step s out) = Statuses out"
  "IndicesToSlash (stake_step s out) = IndicesToSlash out"
  "IndicesToMaybeActivate (stake_step s out) = IndicesToMaybeActivate out"
  "IndicesToEject (stake_step s out) = IndicesToEject out"
  "ExitQueueEnd (stake_step s out) = ExitQueueEnd out"
  "ExitQueueEndChurn (stake_step s out) = ExitQueueEndChurn out"
  "ChurnLimit (stake_step s out) = ChurnLimit out"
  by (simp_all add: stake_step_def Let_def)

lemma stake_loop_frame:
  "Statuses (stake_loop S out) = Statuses out
   \<and> IndicesToSlash (stake_loop S out) = IndicesToSlash out
   \<and> IndicesToMaybeActivate (stake_loop S out) = IndicesToMaybeActivate out
   \<and> IndicesToEject (stake_loop S out) = IndicesToEject out
   \<and> ExitQueueEnd (stake_loop S out) = ExitQueueEnd out
   \<and> ExitQueueEndChurn (stake_loop S out) = ExitQueueEndChurn out
   \<and> ChurnLimit (stake_loop S out) = ChurnLimit out"
  by (induction S arbitrary: out) (simp_all add: stake_step_frame)

lemma clamp_stakes_frame:
  "Statuses (clamp_stakes spec out) = Statuses out"
  "IndicesToSlash (clamp_stakes spec out) = IndicesToSlash out"
  "IndicesToMaybeActivate (clamp_stakes spec out) = IndicesToMaybeActivate out"
  "IndicesToEject (clamp_stakes spec out) = IndicesToEject out"
  "ExitQueueEnd (clamp_stakes spec out) = ExitQueueEnd out"
  "ExitQueueEndChurn (clamp_stakes spec out) = ExitQueueEndChurn out"
  "ChurnLimit (clamp_stakes spec out) = ChurnLimit out"
  by (simp_all add: clamp_stakes_def Let_def)

lemma floor_at_ge: "inc \<le> floor_at inc x"
  by (simp add: floor_at_def not_less)

lemma clamp_stakes_floor:
  "EFFECTIVE_BALANCE_INCREMENT spec \<le> TotalActiveStake (clamp_stakes spec out)"
  "EFFECTIVE_BALANCE_INCREMENT spec
     \<le> SourceStake (PrevEpochUnslashedStake (clamp_stakes spec out))"
  "EFFECTIVE_BALANCE_INCREMENT spec
     \<le> TargetStake (PrevEpochUnslashedStake (clamp_stakes spec out))"
  "EFFECTIVE_BALANCE_INCREMENT spec
     \<le> HeadStake (PrevEpochUnslashedStake (clamp_stakes spec out))"
  "EFFECTIVE_BALANCE_INCREMENT spec \<le> CurrEpochUnslashedTargetStake (clamp_stakes spec out)"
  by (simp_all add: clamp_stakes_def Let_def floor_at_ge)

section \<open>The exit-queue cursor\<close>

lemma exit_queue_cursor_frame:
  assumes "exit_queue_cursor spec e ac out = Inr out'"
  shows "Statuses out' = Statuses out"
    and "IndicesToSlash out' = IndicesToSlash out"
    and "IndicesToMaybeActivate out' = IndicesToMaybeActivate out"
    and "IndicesToEject out' = IndicesToEject out"
  using assms
  by (auto simp add: exit_queue_cursor_def Let_def split: sum.splits if_splits)

lemma exit_queue_cursor_result:
  assumes "exit_queue_cursor spec e ac out = Inr out'"
  shows "GetChurnLimit spec ac = Inr (ChurnLimit out')
    \<and> (if ChurnLimit out' \<le> exit_churn_loop e (Statuses out) 0
        then ExitQueueEnd out' = e + 1 \<and> ExitQueueEndChurn out' = 0
        else ExitQueueEnd out' = e
             \<and> ExitQueueEndChurn out' = exit_churn_loop e (Statuses out) 0)"
  using assms
  by (auto simp add: exit_queue_cursor_def Let_def split: sum.splits if_splits)

section \<open>What a successful run of the collector went through\<close>

lemma PrepareEpochProcess_Inr:
  assumes "PrepareEpochProcess ctx spec epc state = Inr out"
  obtains out1 ac out3 st4 st5 where
    "validators_loop ctx spec (PreviousEpoch epc) (CurrentEpoch epc)
       (CurrentEpoch epc + EPOCHS_PER_SLASHINGS_VECTOR spec div 2) 0 (validators state)
       (new_process (PreviousEpoch epc) (CurrentEpoch epc) (length (validators state)), 0)
     = Inr (out1, ac)"
    "exit_queue_cursor spec (ComputeActivationExitEpoch spec (CurrentEpoch epc)) ac
       (out1\<lparr>IndicesToMaybeActivate :=
          sort_Slice (maybe_activate_less (Statuses out1)) (IndicesToMaybeActivate out1)\<rparr>)
     = Inr out3"
    "processEpoch (\<lambda>i. ctx (PrevAttestationPoll i)) spec epc state (PreviousEpoch epc)
       (previous_epoch_attestations state) (PreviousEpoch epc)
       PrevSourceAttester PrevTargetAttester PrevHeadAttester (Statuses out3) = Inr st4"
    "processEpoch (\<lambda>i. ctx (CurrAttestationPoll i)) spec epc state (PreviousEpoch epc)
       (current_epoch_attestations state) (CurrentEpoch epc)
       CurrSourceAttester CurrTargetAttester CurrHeadAttester st4 = Inr st5"
    "out = clamp_stakes spec (stake_loop st5 (out3\<lparr>Statuses := st5\<rparr>))"
  using assms
  unfolding PrepareEpochProcess_def Let_def
  by (auto split: sum.splits)

text \<open>
  The facts about the process a successful run returns, in terms of the registry: the
  statuses, the three queues and the cursor.
\<close>

lemma prepare_facts:
  assumes run: "PrepareEpochProcess ctx spec epc state = Inr out"
  defines "vals \<equiv> validators state"
    and "pe \<equiv> PreviousEpoch epc"
    and "ce \<equiv> CurrentEpoch epc"
  shows "length (Statuses out) = length vals"
    and "\<forall>k<length vals. status_inv vals k (Statuses out ! k)"
    and "IndicesToSlash out =
           indices_from 0 (to_slash (ce + EPOCHS_PER_SLASHINGS_VECTOR spec div 2)) vals"
    and "IndicesToMaybeActivate out =
           sort_Slice (maybe_activate_less (map (pass1_status pe ce) vals))
             (indices_from 0 (to_maybe_activate ce) vals)"
    and "IndicesToEject out = indices_from 0 (to_eject spec ce) vals"
    and "GetChurnLimit spec (of_nat (length (filter (\<lambda>v. IsActive v ce) vals)))
           = Inr (ChurnLimit out)"
    and "if ChurnLimit out
              \<le> exit_churn_loop (ComputeActivationExitEpoch spec ce)
                   (map (pass1_status pe ce) vals) 0
         then ExitQueueEnd out = ComputeActivationExitEpoch spec ce + 1
              \<and> ExitQueueEndChurn out = 0
         else ExitQueueEnd out = ComputeActivationExitEpoch spec ce
              \<and> ExitQueueEndChurn out =
                  exit_churn_loop (ComputeActivationExitEpoch spec ce)
                    (map (pass1_status pe ce) vals) 0"
proof -
  from run obtain out1 ac out3 st4 st5 where
    p1: "validators_loop ctx spec pe ce (ce + EPOCHS_PER_SLASHINGS_VECTOR spec div 2) 0 vals
           (new_process pe ce (length vals), 0) = Inr (out1, ac)"
    and cur: "exit_queue_cursor spec (ComputeActivationExitEpoch spec ce) ac
           (out1\<lparr>IndicesToMaybeActivate :=
              sort_Slice (maybe_activate_less (Statuses out1)) (IndicesToMaybeActivate out1)\<rparr>)
         = Inr out3"
    and e1: "processEpoch (\<lambda>i. ctx (PrevAttestationPoll i)) spec epc state pe
           (previous_epoch_attestations state) pe
           PrevSourceAttester PrevTargetAttester PrevHeadAttester (Statuses out3) = Inr st4"
    and e2: "processEpoch (\<lambda>i. ctx (CurrAttestationPoll i)) spec epc state pe
           (current_epoch_attestations state) ce
           CurrSourceAttester CurrTargetAttester CurrHeadAttester st4 = Inr st5"
    and out: "out = clamp_stakes spec (stake_loop st5 (out3\<lparr>Statuses := st5\<rparr>))"
    unfolding vals_def pe_def ce_def by (rule PrepareEpochProcess_Inr)
  note P1 = pass1_result [OF p1]
  note F3 = exit_queue_cursor_frame [OF cur]
  note C3 = exit_queue_cursor_result [OF cur]
  have s3: "Statuses out3 = map (pass1_status pe ce) vals"
    using F3(1) P1(1) by simp
  have inv3: "\<forall>k<length (Statuses out3). status_inv vals k (Statuses out3 ! k)"
    unfolding s3 by (simp add: status_inv_pass1)
  have i4: "length st4 = length (Statuses out3)
      \<and> (\<forall>k<length (Statuses out3). status_inv vals k (st4 ! k))"
    by (rule processEpoch_preserves [where P = "status_inv vals", OF _ _ e1 inv3])
       (simp_all add: status_inv_note_inclusion status_inv_mark_prev)
  then have inv4: "\<forall>k<length st4. status_inv vals k (st4 ! k)" by simp
  have i5: "length st5 = length st4 \<and> (\<forall>k<length st4. status_inv vals k (st5 ! k))"
    by (rule processEpoch_preserves [where P = "status_inv vals", OF _ _ e2 inv4])
       (simp_all add: status_inv_note_inclusion status_inv_mark_curr)
  have len5: "length st5 = length vals" using i5 i4 s3 by simp
  have so: "Statuses out = st5"
    unfolding out by (simp add: clamp_stakes_frame stake_loop_frame)
  show "length (Statuses out) = length vals" using so len5 by simp
  show "\<forall>k<length vals. status_inv vals k (Statuses out ! k)"
    using so i5 i4 s3 by simp
  show "IndicesToSlash out =
      indices_from 0 (to_slash (ce + EPOCHS_PER_SLASHINGS_VECTOR spec div 2)) vals"
    unfolding out using F3(2) P1(2) by (simp add: clamp_stakes_frame stake_loop_frame)
  show "IndicesToMaybeActivate out =
      sort_Slice (maybe_activate_less (map (pass1_status pe ce) vals))
        (indices_from 0 (to_maybe_activate ce) vals)"
    unfolding out using F3(3) P1(1) P1(3) by (simp add: clamp_stakes_frame stake_loop_frame)
  show "IndicesToEject out = indices_from 0 (to_eject spec ce) vals"
    unfolding out using F3(4) P1(4) by (simp add: clamp_stakes_frame stake_loop_frame)
  have cl: "ChurnLimit out = ChurnLimit out3" "ExitQueueEnd out = ExitQueueEnd out3"
    "ExitQueueEndChurn out = ExitQueueEndChurn out3"
    unfolding out by (simp_all add: clamp_stakes_frame stake_loop_frame)
  show "GetChurnLimit spec (of_nat (length (filter (\<lambda>v. IsActive v ce) vals)))
      = Inr (ChurnLimit out)"
    using C3 P1(5) cl by simp
  show "if ChurnLimit out
              \<le> exit_churn_loop (ComputeActivationExitEpoch spec ce)
                   (map (pass1_status pe ce) vals) 0
         then ExitQueueEnd out = ComputeActivationExitEpoch spec ce + 1
              \<and> ExitQueueEndChurn out = 0
         else ExitQueueEnd out = ComputeActivationExitEpoch spec ce
              \<and> ExitQueueEndChurn out =
                  exit_churn_loop (ComputeActivationExitEpoch spec ce)
                    (map (pass1_status pe ce) vals) 0"
    using C3 P1(1) cl by simp
qed

section \<open>The stake floor and the head flag\<close>

text \<open>
  C3. Whenever \<open>PrepareEpochProcess\<close> returns a process, its total active stake, the
  source, target and head stake of the previous epoch and the target stake of the current
  epoch are each at least \<open>EFFECTIVE_BALANCE_INCREMENT\<close>, whatever the attestations were.
\<close>

theorem prepare_stake_floor:
  "PrepareEpochProcess ctx spec epc state = Inr out \<Longrightarrow>
   EFFECTIVE_BALANCE_INCREMENT spec \<le> TotalActiveStake out
   \<and> EFFECTIVE_BALANCE_INCREMENT spec \<le> SourceStake (PrevEpochUnslashedStake out)
   \<and> EFFECTIVE_BALANCE_INCREMENT spec \<le> TargetStake (PrevEpochUnslashedStake out)
   \<and> EFFECTIVE_BALANCE_INCREMENT spec \<le> HeadStake (PrevEpochUnslashedStake out)
   \<and> EFFECTIVE_BALANCE_INCREMENT spec \<le> CurrEpochUnslashedTargetStake out"
proof -
  assume "PrepareEpochProcess ctx spec epc state = Inr out"
  then obtain out3 st5 where
    "out = clamp_stakes spec (stake_loop st5 (out3\<lparr>Statuses := st5\<rparr>))"
    by (rule PrepareEpochProcess_Inr)
  then show ?thesis by (simp only: clamp_stakes_floor)
qed

theorem prepare_stake_floor_witness:
  "\<exists>out. PrepareEpochProcess never_cancelled example_spec example_epc
            (example_state [example_validator, example_validator]) = Inr out
     \<and> 1000000000 \<le> TotalActiveStake out
     \<and> 1000000000 \<le> SourceStake (PrevEpochUnslashedStake out)
     \<and> 1000000000 \<le> TargetStake (PrevEpochUnslashedStake out)
     \<and> 1000000000 \<le> HeadStake (PrevEpochUnslashedStake out)
     \<and> 1000000000 \<le> CurrEpochUnslashedTargetStake out"
proof -
  have "\<not> isl (PrepareEpochProcess never_cancelled example_spec example_epc
            (example_state [example_validator, example_validator]))"
    by code_simp
  then obtain out where run: "PrepareEpochProcess never_cancelled example_spec example_epc
            (example_state [example_validator, example_validator]) = Inr out"
    by (cases "PrepareEpochProcess never_cancelled example_spec example_epc
            (example_state [example_validator, example_validator])") simp_all
  have inc: "EFFECTIVE_BALANCE_INCREMENT example_spec = 1000000000"
    by (simp add: example_spec_def)
  from prepare_stake_floor [OF run] run show ?thesis
    unfolding inc by blast
qed

text \<open>
  C7. In every process that \<open>PrepareEpochProcess\<close> returns, every status that has the head
  flag of the previous epoch has the target flag of the previous epoch, and every status
  that has the head flag of the current epoch has the target flag of the current epoch.
\<close>

theorem head_flag_implies_target_flag:
  "PrepareEpochProcess ctx spec epc state = Inr out \<Longrightarrow>
   status \<in> set (Statuses out) \<Longrightarrow>
   (HasMarkers (Flags status) PrevHeadAttester \<longrightarrow> HasMarkers (Flags status) PrevTargetAttester)
   \<and> (HasMarkers (Flags status) CurrHeadAttester \<longrightarrow> HasMarkers (Flags status) CurrTargetAttester)"
proof -
  assume run: "PrepareEpochProcess ctx spec epc state = Inr out"
    and mem: "status \<in> set (Statuses out)"
  from mem obtain k where k: "k < length (Statuses out)" "status = Statuses out ! k"
    by (auto simp add: in_set_conv_nth)
  have "status_inv (validators state) k status"
    using prepare_facts(1,2) [OF run] k by simp
  then show ?thesis
    by (simp add: status_inv_def flag_bits)
qed

theorem head_flag_implies_target_flag_witness:
  "\<exists>out. PrepareEpochProcess never_cancelled example_spec example_epc
            (attested_state [example_validator, example_validator]) = Inr out
     \<and> HasMarkers (Flags (Statuses out ! 0)) PrevHeadAttester
     \<and> HasMarkers (Flags (Statuses out ! 0)) PrevTargetAttester
     \<and> HasMarkers (Flags (Statuses out ! 0)) CurrHeadAttester
     \<and> HasMarkers (Flags (Statuses out ! 0)) CurrTargetAttester"
proof -
  let ?run = "PrepareEpochProcess never_cancelled example_spec example_epc
            (attested_state [example_validator, example_validator])"
  have ev: "\<not> isl ?run
      \<and> HasMarkers (Flags (Statuses (projr ?run) ! 0)) PrevHeadAttester
      \<and> HasMarkers (Flags (Statuses (projr ?run) ! 0)) CurrHeadAttester
      \<and> length (Statuses (projr ?run)) = 2"
    by code_simp
  then obtain out where run: "?run = Inr out"
    by (cases ?run) simp_all
  have h: "HasMarkers (Flags (Statuses out ! 0)) PrevHeadAttester"
    "HasMarkers (Flags (Statuses out ! 0)) CurrHeadAttester"
    "Statuses out ! 0 \<in> set (Statuses out)"
    using ev run by simp_all
  from head_flag_implies_target_flag [OF run h(3)] h run show ?thesis
    by blast
qed

section \<open>The to-slash queue and the unslashed flag\<close>

text \<open>
  C2, as stated: a validator is queued for slashing if it is slashed and its withdrawable
  epoch is \<open>current_epoch + EPOCHS_PER_SLASHINGS_VECTOR / 2\<close>, and is marked
  UnslashedAttester otherwise. The registry below holds one slashed validator whose
  withdrawable epoch is 300, while the slashings epoch is 4106: it is not queued, and it
  is not marked UnslashedAttester either.
\<close>

theorem slashed_validator_not_marked_unslashed:
  "\<not> isl (PrepareEpochProcess never_cancelled example_spec example_epc
             (example_state [slashed_validator 300]))
   \<and> Slashed (validators (example_state [slashed_validator 300]) ! 0)
   \<and> WithdrawableEpoch (validators (example_state [slashed_validator 300]) ! 0)
       \<noteq> CurrentEpoch example_epc + EPOCHS_PER_SLASHINGS_VECTOR example_spec div 2
   \<and> IndicesToSlash (projr (PrepareEpochProcess never_cancelled example_spec example_epc
             (example_state [slashed_validator 300]))) = []
   \<and> \<not> HasMarkers (Flags (Statuses (projr (PrepareEpochProcess never_cancelled example_spec
             example_epc (example_state [slashed_validator 300]))) ! 0)) UnslashedAttester"
  by code_simp

text \<open>
  C2, amended. In every process that \<open>PrepareEpochProcess\<close> returns, for every validator:
  its index is in the to-slash queue exactly when it is slashed and its withdrawable epoch
  is \<open>current_epoch + EPOCHS_PER_SLASHINGS_VECTOR / 2\<close>; its status is marked
  UnslashedAttester exactly when it is not slashed; and the queue is in ascending index
  order. The registry is a Go slice, so it has at most \<open>2^64\<close> entries.
\<close>

theorem slash_queue_and_unslashed_flag:
  "PrepareEpochProcess ctx spec epc state = Inr out \<Longrightarrow>
   length (validators state) \<le> 2 ^ 64 \<Longrightarrow>
   k < length (validators state) \<Longrightarrow>
   (of_nat k \<in> set (IndicesToSlash out) \<longleftrightarrow>
      Slashed (validators state ! k)
      \<and> WithdrawableEpoch (validators state ! k)
          = CurrentEpoch epc + EPOCHS_PER_SLASHINGS_VECTOR spec div 2)
   \<and> (HasMarkers (Flags (Statuses out ! k)) UnslashedAttester \<longleftrightarrow>
        \<not> Slashed (validators state ! k))
   \<and> sorted_wrt (<) (IndicesToSlash out)"
proof -
  assume run: "PrepareEpochProcess ctx spec epc state = Inr out"
    and len: "length (validators state) \<le> 2 ^ 64"
    and k: "k < length (validators state)"
  note F = prepare_facts [OF run]
  have q: "of_nat k \<in> set (IndicesToSlash out) \<longleftrightarrow>
      Slashed (validators state ! k)
      \<and> WithdrawableEpoch (validators state ! k)
          = CurrentEpoch epc + EPOCHS_PER_SLASHINGS_VECTOR spec div 2"
    unfolding F(3) indices_from_member [OF len k] to_slash_def by auto
  have "status_inv (validators state) k (Statuses out ! k)"
    using F(2) k by simp
  then have u: "HasMarkers (Flags (Statuses out ! k)) UnslashedAttester \<longleftrightarrow>
      \<not> Slashed (validators state ! k)"
    by (simp add: status_inv_def flag_bits)
  have s: "sorted_wrt (<) (IndicesToSlash out)"
    unfolding F(3) using len by (intro indices_from_ascending) simp
  from q u s show ?thesis by (intro conjI)
qed

theorem slash_queue_and_unslashed_flag_witness:
  "\<exists>out. PrepareEpochProcess never_cancelled example_spec example_epc
            (example_state [example_validator, slashed_validator 4106, slashed_validator 300])
          = Inr out
     \<and> 1 \<in> set (IndicesToSlash out)
     \<and> 2 \<notin> set (IndicesToSlash out)
     \<and> HasMarkers (Flags (Statuses out ! 0)) UnslashedAttester
     \<and> \<not> HasMarkers (Flags (Statuses out ! 1)) UnslashedAttester
     \<and> \<not> HasMarkers (Flags (Statuses out ! 2)) UnslashedAttester"
proof -
  let ?state = "example_state [example_validator, slashed_validator 4106, slashed_validator 300]"
  let ?run = "PrepareEpochProcess never_cancelled example_spec example_epc ?state"
  have "\<not> isl ?run" by code_simp
  then obtain out where run: "?run = Inr out" by (cases ?run) simp_all
  have len: "length (validators ?state) \<le> 2 ^ 64"
    by (simp add: example_state_def)
  have v: "validators ?state = [example_validator, slashed_validator 4106, slashed_validator 300]"
    by (simp add: example_state_def)
  have se: "CurrentEpoch example_epc + EPOCHS_PER_SLASHINGS_VECTOR example_spec div 2 = 4106"
    by (simp add: example_epc_def example_spec_def)
  have k0: "0 < length (validators ?state)" and k1: "1 < length (validators ?state)"
    and k2: "2 < length (validators ?state)"
    by (simp_all add: example_state_def)
  note w0 = slash_queue_and_unslashed_flag [OF run len k0]
  note w1 = slash_queue_and_unslashed_flag [OF run len k1]
  note w2 = slash_queue_and_unslashed_flag [OF run len k2]
  have a: "1 \<in> set (IndicesToSlash out)"
    using w1 unfolding v se by (simp add: slashed_validator_def example_validator_def)
  have b: "2 \<notin> set (IndicesToSlash out)"
    using w2 unfolding v se by (simp add: slashed_validator_def example_validator_def)
  have c: "HasMarkers (Flags (Statuses out ! 0)) UnslashedAttester"
    using w0 unfolding v se by (simp add: example_validator_def)
  have d: "\<not> HasMarkers (Flags (Statuses out ! 1)) UnslashedAttester"
    using w1 unfolding v se by (simp add: slashed_validator_def example_validator_def)
  have e: "\<not> HasMarkers (Flags (Statuses out ! 2)) UnslashedAttester"
    using w2 unfolding v se by (simp add: slashed_validator_def example_validator_def)
  from run a b c d e show ?thesis by blast
qed

section \<open>The exit-queue cursor of the collector\<close>

lemma exit_churn_loop_count:
  "exit_churn_loop e (map (pass1_status pe ce) vals) c =
     c + of_nat (length (filter (\<lambda>v. ExitEpoch v = e) vals))"
  by (induction vals arbitrary: c) (simp_all add: pass1_status_def)

lemma filter_length_update:
  assumes "k < length xs" "P y = P (xs ! k)"
  shows "length (filter P (xs[k := y])) = length (filter P xs)"
proof -
  have a: "xs[k := y] = take k xs @ y # drop (Suc k) xs"
    using assms(1) by (rule upd_conv_take_nth_drop)
  have b: "xs = take k xs @ xs ! k # drop (Suc k) xs"
    using assms(1) by (rule id_take_nth_drop)
  have "length (filter P (take k xs @ y # drop (Suc k) xs))
      = length (filter P (take k xs @ xs ! k # drop (Suc k) xs))"
    using assms(2) by simp
  then show ?thesis using a b by simp
qed

lemma prepare_cursor:
  assumes run: "PrepareEpochProcess ctx spec epc state = Inr out"
    and len: "length (validators state) < 2 ^ 64"
  shows "GetChurnLimit spec
           (of_nat (length (filter (\<lambda>v. IsActive v (CurrentEpoch epc)) (validators state))))
         = Inr (ChurnLimit out)"
    and "if unat (ChurnLimit out)
            \<le> length (filter (\<lambda>v. ExitEpoch v
                   = ComputeActivationExitEpoch spec (CurrentEpoch epc)) (validators state))
         then ExitQueueEnd out = ComputeActivationExitEpoch spec (CurrentEpoch epc) + 1
              \<and> ExitQueueEndChurn out = 0
         else ExitQueueEnd out = ComputeActivationExitEpoch spec (CurrentEpoch epc)
              \<and> unat (ExitQueueEndChurn out)
                  = length (filter (\<lambda>v. ExitEpoch v
                      = ComputeActivationExitEpoch spec (CurrentEpoch epc)) (validators state))"
proof -
  let ?E = "ComputeActivationExitEpoch spec (CurrentEpoch epc)"
  let ?n = "length (filter (\<lambda>v. ExitEpoch v = ?E) (validators state))"
  note F = prepare_facts [OF run]
  show "GetChurnLimit spec
           (of_nat (length (filter (\<lambda>v. IsActive v (CurrentEpoch epc)) (validators state))))
         = Inr (ChurnLimit out)"
    by (rule F(6))
  have n: "?n < 2 ^ 64"
    by (rule le_less_trans [OF length_filter_le len])
  have un: "unat (of_nat ?n :: 64 word) = ?n"
    using n by (rule unat_of_nat64)
  have cnt: "exit_churn_loop ?E
      (map (pass1_status (PreviousEpoch epc) (CurrentEpoch epc)) (validators state)) 0
      = of_nat ?n"
    by (simp add: exit_churn_loop_count)
  have le: "ChurnLimit out \<le> of_nat ?n \<longleftrightarrow> unat (ChurnLimit out) \<le> ?n"
    by (simp add: word_le_nat_alt un)
  show "if unat (ChurnLimit out) \<le> ?n
         then ExitQueueEnd out = ?E + 1 \<and> ExitQueueEndChurn out = 0
         else ExitQueueEnd out = ?E \<and> unat (ExitQueueEndChurn out) = ?n"
    using F(7) unfolding cnt le by (simp add: un split: if_splits)
qed

text \<open>
  C10. \<open>PrepareEpochProcess\<close> takes the exit-queue cursor from
  \<open>ComputeActivationExitEpoch(current_epoch)\<close> alone: the churn limit is that of the
  validators active in the current epoch; if the number of registry validators whose exit
  epoch is that epoch reaches the churn limit, the queue end is the next epoch and the
  churn at the end is zero, otherwise the queue end is that epoch and the churn at the
  end is that number. Moving the exit epoch of a validator from one epoch beyond it to
  another epoch beyond it changes nothing of the cursor. The registry is a Go slice, so it
  has fewer than \<open>2^64\<close> entries.
\<close>

theorem exit_queue_cursor_from_activation_exit_epoch:
  assumes "PrepareEpochProcess ctx spec epc state = Inr out"
    and "length (validators state) < 2 ^ 64"
  shows
   "GetChurnLimit spec
      (of_nat (length (filter (\<lambda>v. IsActive v (CurrentEpoch epc)) (validators state))))
    = Inr (ChurnLimit out)
    \<and> (if unat (ChurnLimit out)
            \<le> length (filter (\<lambda>v. ExitEpoch v
                   = ComputeActivationExitEpoch spec (CurrentEpoch epc)) (validators state))
        then ExitQueueEnd out = ComputeActivationExitEpoch spec (CurrentEpoch epc) + 1
             \<and> ExitQueueEndChurn out = 0
        else ExitQueueEnd out = ComputeActivationExitEpoch spec (CurrentEpoch epc)
             \<and> unat (ExitQueueEndChurn out)
                 = length (filter (\<lambda>v. ExitEpoch v
                     = ComputeActivationExitEpoch spec (CurrentEpoch epc)) (validators state)))
    \<and> (\<forall>k x out'.
          k < length (validators state)
          \<and> CurrentEpoch epc \<le> ComputeActivationExitEpoch spec (CurrentEpoch epc)
          \<and> ComputeActivationExitEpoch spec (CurrentEpoch epc)
              < ExitEpoch (validators state ! k)
          \<and> ComputeActivationExitEpoch spec (CurrentEpoch epc) < x
          \<and> PrepareEpochProcess ctx spec epc
               (state\<lparr>validators :=
                  (validators state)[k := (validators state ! k)\<lparr>ExitEpoch := x\<rparr>]\<rparr>)
              = Inr out'
          \<longrightarrow> ExitQueueEnd out' = ExitQueueEnd out
              \<and> ExitQueueEndChurn out' = ExitQueueEndChurn out
              \<and> ChurnLimit out' = ChurnLimit out)"
proof (intro conjI allI impI)
  let ?E = "ComputeActivationExitEpoch spec (CurrentEpoch epc)"
  let ?ce = "CurrentEpoch epc"
  let ?vals = "validators state"
  note A = prepare_cursor [OF assms]
  show "GetChurnLimit spec (of_nat (length (filter (\<lambda>v. IsActive v ?ce) ?vals)))
      = Inr (ChurnLimit out)"
    by (rule A(1))
  show "if unat (ChurnLimit out) \<le> length (filter (\<lambda>v. ExitEpoch v = ?E) ?vals)
        then ExitQueueEnd out = ?E + 1 \<and> ExitQueueEndChurn out = 0
        else ExitQueueEnd out = ?E
             \<and> unat (ExitQueueEndChurn out) = length (filter (\<lambda>v. ExitEpoch v = ?E) ?vals)"
    by (rule A(2))
  fix k x out'
  assume h: "k < length ?vals \<and> ?ce \<le> ?E \<and> ?E < ExitEpoch (?vals ! k) \<and> ?E < x
      \<and> PrepareEpochProcess ctx spec epc
           (state\<lparr>validators := ?vals[k := (?vals ! k)\<lparr>ExitEpoch := x\<rparr>]\<rparr>) = Inr out'"
  let ?v' = "(?vals ! k)\<lparr>ExitEpoch := x\<rparr>"
  let ?state' = "state\<lparr>validators := ?vals[k := ?v']\<rparr>"
  have k: "k < length ?vals" and run': "PrepareEpochProcess ctx spec epc ?state' = Inr out'"
    using h by simp_all
  have len': "length (validators ?state') < 2 ^ 64" using assms(2) by simp
  note B = prepare_cursor [OF run' len']
  have ex: "(ExitEpoch ?v' = ?E) = (ExitEpoch (?vals ! k) = ?E)"
    using h by auto
  have act: "IsActive ?v' ?ce = IsActive (?vals ! k) ?ce"
    using h by (auto simp add: IsActive_def)
  have n: "length (filter (\<lambda>v. ExitEpoch v = ?E) (validators ?state'))
      = length (filter (\<lambda>v. ExitEpoch v = ?E) ?vals)"
    using filter_length_update [OF k, of "\<lambda>v. ExitEpoch v = ?E" ?v'] ex by simp
  have a: "length (filter (\<lambda>v. IsActive v ?ce) (validators ?state'))
      = length (filter (\<lambda>v. IsActive v ?ce) ?vals)"
    using filter_length_update [OF k, of "\<lambda>v. IsActive v ?ce" ?v'] act by simp
  have L: "ChurnLimit out' = ChurnLimit out"
    using A(1) B(1) unfolding a by simp
  show "ExitQueueEnd out' = ExitQueueEnd out"
    using A(2) B(2) unfolding n L by (simp split: if_splits)
  have "unat (ExitQueueEndChurn out') = unat (ExitQueueEndChurn out)"
    using A(2) B(2) unfolding n L by (auto split: if_splits)
  then show "ExitQueueEndChurn out' = ExitQueueEndChurn out"
    by (simp only: word_unat_eq_iff)
  show "ChurnLimit out' = ChurnLimit out" by (rule L)
qed

theorem exit_queue_cursor_from_activation_exit_epoch_witness:
  "\<exists>out. PrepareEpochProcess never_cancelled example_spec example_epc
            (example_state [example_validator, exiting_validator 20, exiting_validator 15])
          = Inr out
     \<and> ComputeActivationExitEpoch example_spec (CurrentEpoch example_epc) = 15
     \<and> ChurnLimit out = 4
     \<and> ExitQueueEnd out = 15
     \<and> unat (ExitQueueEndChurn out) = 1
     \<and> ExitEpoch (validators (projr (InitiateValidatorExit example_spec example_epc
            (example_state [example_validator, exiting_validator 20, exiting_validator 15])
            0)) ! 0) = 20"
proof -
  let ?state = "example_state [example_validator, exiting_validator 20, exiting_validator 15]"
  let ?run = "PrepareEpochProcess never_cancelled example_spec example_epc ?state"
  have "\<not> isl ?run" by code_simp
  then obtain out where run: "?run = Inr out" by (cases ?run) simp_all
  have len: "length (validators ?state) < 2 ^ 64"
    by (simp add: example_state_def)
  have E: "ComputeActivationExitEpoch example_spec (CurrentEpoch example_epc) = 15"
    by (simp add: ComputeActivationExitEpoch_def example_spec_def example_epc_def)
  have n: "length (filter (\<lambda>v. ExitEpoch v = 15) (validators ?state)) = 1"
    by (simp add: example_state_def exiting_validator_def example_validator_def
        FAR_FUTURE_EPOCH_def)
  have a: "length (filter (\<lambda>v. IsActive v (CurrentEpoch example_epc)) (validators ?state)) = 3"
    by (simp add: example_state_def exiting_validator_def example_validator_def
        FAR_FUTURE_EPOCH_def IsActive_def example_epc_def)
  have g: "GetChurnLimit example_spec 3 = Inr 4"
    by (simp add: GetChurnLimit_def example_spec_def)
  note W = exit_queue_cursor_from_activation_exit_epoch [OF run len]
  have L: "ChurnLimit out = 4"
    using W unfolding a E n using g by simp
  have c: "ExitQueueEnd out = 15 \<and> unat (ExitQueueEndChurn out) = 1"
    using W unfolding a E n L by simp
  have i: "ExitEpoch (validators (projr (InitiateValidatorExit example_spec example_epc
            ?state 0)) ! 0) = 20"
    by code_simp
  from run E L c i show ?thesis by blast
qed

section \<open>The loops of the registry updates\<close>

lemma eject_loop_frame:
  "length (fst (eject_loop spec L idx e c vals)) = length vals
   \<and> (\<forall>k. k \<notin> unat ` set idx \<longrightarrow> fst (eject_loop spec L idx e c vals) ! k = vals ! k)"
proof (induction idx arbitrary: e c vals)
  case Nil
  then show ?case by simp
next
  case (Cons x rest)
  show ?case
  proof (cases "length vals \<le> unat x")
    case True
    then show ?thesis by simp
  next
    case False
    let ?v2 = "vals[unat x := (vals ! unat x)\<lparr>ExitEpoch := e,
                 WithdrawableEpoch := e + MIN_VALIDATOR_WITHDRAWABILITY_DELAY spec\<rparr>]"
    have step: "eject_loop spec L (x # rest) e c vals =
        (if L \<le> c + 1 then eject_loop spec L rest (e + 1) 0 ?v2
         else eject_loop spec L rest e (c + 1) ?v2)"
      using False by (simp add: Let_def)
    have v2: "length ?v2 = length vals" "\<And>k. k \<noteq> unat x \<Longrightarrow> ?v2 ! k = vals ! k"
      by simp_all
    show ?thesis
      unfolding step using Cons.IH [of "e + 1" 0 ?v2] Cons.IH [of e "c + 1" ?v2] v2
      by auto
  qed
qed

lemma eject_loop_no_error:
  "(\<forall>x \<in> set idx. unat x < length vals) \<Longrightarrow> snd (eject_loop spec L idx e c vals) = None"
proof (induction idx arbitrary: e c vals)
  case Nil
  then show ?case by simp
next
  case (Cons x rest)
  then show ?case by (simp add: Let_def)
qed

lemma eligibility_loop_frame:
  "length (fst (eligibility_loop ee idx vals)) = length vals
   \<and> (\<forall>k. ExitEpoch (fst (eligibility_loop ee idx vals) ! k) = ExitEpoch (vals ! k)
          \<and> WithdrawableEpoch (fst (eligibility_loop ee idx vals) ! k)
              = WithdrawableEpoch (vals ! k))"
proof (induction idx arbitrary: vals)
  case Nil
  then show ?case by simp
next
  case (Cons x rest)
  show ?case
  proof (cases "length vals \<le> unat x")
    case True
    then show ?thesis by simp
  next
    case False
    let ?v1 = "vals[unat x := (vals ! unat x)\<lparr>ActivationEligibilityEpoch := ee\<rparr>]"
    have step: "eligibility_loop ee (x # rest) vals = eligibility_loop ee rest ?v1"
      using False by simp
    have v1: "length ?v1 = length vals"
      "\<And>k. ExitEpoch (?v1 ! k) = ExitEpoch (vals ! k)"
      "\<And>k. WithdrawableEpoch (?v1 ! k) = WithdrawableEpoch (vals ! k)"
      using False by (simp_all add: nth_list_update)
    show ?thesis unfolding step using Cons.IH [of ?v1] v1 by simp
  qed
qed

lemma activation_loop_frame:
  "length (fst (activation_loop a f S idx vals)) = length vals
   \<and> (\<forall>k. ExitEpoch (fst (activation_loop a f S idx vals) ! k) = ExitEpoch (vals ! k)
          \<and> WithdrawableEpoch (fst (activation_loop a f S idx vals) ! k)
              = WithdrawableEpoch (vals ! k))"
proof (induction idx arbitrary: vals)
  case Nil
  then show ?case by simp
next
  case (Cons x rest)
  let ?v1 = "vals[unat x := (vals ! unat x)\<lparr>ActivationEpoch := a\<rparr>]"
  have v1: "length ?v1 = length vals"
    "\<And>k. length vals > unat x \<Longrightarrow> ExitEpoch (?v1 ! k) = ExitEpoch (vals ! k)"
    "\<And>k. length vals > unat x \<Longrightarrow> WithdrawableEpoch (?v1 ! k) = WithdrawableEpoch (vals ! k)"
    by (simp_all add: nth_list_update)
  show ?case using Cons.IH [of ?v1] v1 by (simp add: not_le)
qed


lemma ProcessEpochRegistryUpdates_cancelled:
  "ctx RegistryUpdatesPoll \<Longrightarrow>
   ProcessEpochRegistryUpdates ctx spec epc process state = (state, Some TransitionCancelErr)"
  by (simp add: ProcessEpochRegistryUpdates_def)

lemma ProcessEpochRegistryUpdates_exit_epochs:
  assumes "\<not> ctx RegistryUpdatesPoll"
  shows "length (validators (fst (ProcessEpochRegistryUpdates ctx spec epc process state)))
           = length (validators state)"
    and "ExitEpoch (validators (fst (ProcessEpochRegistryUpdates ctx spec epc process state)) ! k)
           = ExitEpoch (fst (process_ejections spec process (validators state)) ! k)"
    and "WithdrawableEpoch
           (validators (fst (ProcessEpochRegistryUpdates ctx spec epc process state)) ! k)
           = WithdrawableEpoch (fst (process_ejections spec process (validators state)) ! k)"
proof -
  obtain v1 e1 where p1: "process_ejections spec process (validators state) = (v1, e1)"
    by (cases "process_ejections spec process (validators state)")
  obtain v2 e2 where p2: "process_eligibility epc process v1 = (v2, e2)"
    by (cases "process_eligibility epc process v1")
  obtain v3 e3 where p3: "process_activations spec epc process
      (cp_Epoch (finalized_checkpoint state)) v2 = (v3, e3)"
    by (cases "process_activations spec epc process (cp_Epoch (finalized_checkpoint state)) v2")
  have l1: "length v1 = length (validators state)"
    using eject_loop_frame [of spec "ChurnLimit process" "IndicesToEject process"
        "ExitQueueEnd process" "ExitQueueEndChurn process" "validators state"] p1
    by (simp add: process_ejections_def)
  have f2: "length v2 = length v1" "ExitEpoch (v2 ! k) = ExitEpoch (v1 ! k)"
    "WithdrawableEpoch (v2 ! k) = WithdrawableEpoch (v1 ! k)"
    using eligibility_loop_frame [of "CurrentEpoch epc + 1"
        "IndicesToSetActivationEligibility process" v1] p2
    by (simp_all add: process_eligibility_def)
  let ?deq = "if length (IndicesToMaybeActivate process) > unat (ChurnLimit process)
              then take (unat (ChurnLimit process)) (IndicesToMaybeActivate process)
              else IndicesToMaybeActivate process"
  have p3': "activation_loop (ComputeActivationExitEpoch spec (CurrentEpoch epc))
      (cp_Epoch (finalized_checkpoint state)) (Statuses process) ?deq v2 = (v3, e3)"
    using p3 by (simp add: process_activations_def Let_def)
  have f3: "length v3 = length v2" "ExitEpoch (v3 ! k) = ExitEpoch (v2 ! k)"
    "WithdrawableEpoch (v3 ! k) = WithdrawableEpoch (v2 ! k)"
    using activation_loop_frame [of "ComputeActivationExitEpoch spec (CurrentEpoch epc)"
        "cp_Epoch (finalized_checkpoint state)" "Statuses process" ?deq v2]
    unfolding p3' by simp_all
  have cases: "validators (fst (ProcessEpochRegistryUpdates ctx spec epc process state))
      \<in> {v1, v2, v3}"
    using assms p1 p2 p3
    by (auto simp add: ProcessEpochRegistryUpdates_def split: option.splits)
  show "length (validators (fst (ProcessEpochRegistryUpdates ctx spec epc process state)))
           = length (validators state)"
    using cases l1 f2(1) f3(1) by auto
  show "ExitEpoch (validators (fst (ProcessEpochRegistryUpdates ctx spec epc process state)) ! k)
           = ExitEpoch (fst (process_ejections spec process (validators state)) ! k)"
    using cases p1 f2(2) f3(2) by auto
  show "WithdrawableEpoch
           (validators (fst (ProcessEpochRegistryUpdates ctx spec epc process state)) ! k)
           = WithdrawableEpoch (fst (process_ejections spec process (validators state)) ! k)"
    using cases p1 f2(3) f3(3) by auto
qed

section \<open>Validators that are already exiting\<close>

text \<open>
  C9. A validator whose exit epoch is already set when the collector runs is never placed
  in the to-eject queue; the registry updates driven by that process, cancelled or not,
  failing or not, leave its exit epoch and its withdrawable epoch as they were; and
  \<open>InitiateValidatorExit\<close> for it returns the state unchanged. The registry is a Go slice,
  so it has at most \<open>2^64\<close> entries.
\<close>

theorem exiting_validator_is_not_ejected:
  assumes "PrepareEpochProcess ctx spec epc state = Inr process"
    and "length (validators state) \<le> 2 ^ 64"
    and "k < length (validators state)"
    and "ExitEpoch (validators state ! k) \<noteq> FAR_FUTURE_EPOCH"
  shows "of_nat k \<notin> set (IndicesToEject process)
    \<and> ExitEpoch (validators (fst (ProcessEpochRegistryUpdates ctx' spec epc process state)) ! k)
        = ExitEpoch (validators state ! k)
    \<and> WithdrawableEpoch
        (validators (fst (ProcessEpochRegistryUpdates ctx' spec epc process state)) ! k)
        = WithdrawableEpoch (validators state ! k)
    \<and> InitiateValidatorExit spec epc state (of_nat k) = Inr state"
proof -
  let ?vals = "validators state"
  let ?q = "IndicesToEject process"
  note F = prepare_facts [OF assms(1)]
  have q: "?q = indices_from 0 (to_eject spec (CurrentEpoch epc)) ?vals" by (rule F(5))
  have notin: "k \<notin> unat ` set ?q"
  proof
    assume "k \<in> unat ` set ?q"
    then obtain x where x: "x \<in> set ?q" "k = unat x" by blast
    have "to_eject spec (CurrentEpoch epc) (?vals ! unat x)"
      using indices_from_unat [OF assms(2)] x(1) unfolding q by blast
    then show False using assms(4) x(2) by (simp add: to_eject_def)
  qed
  have a: "of_nat k \<notin> set ?q"
  proof
    assume "of_nat k \<in> set ?q"
    then have "to_eject spec (CurrentEpoch epc) (?vals ! k)"
      unfolding q indices_from_member [OF assms(2,3)] .
    then show False using assms(4) by (simp add: to_eject_def)
  qed
  have ej: "fst (process_ejections spec process ?vals) ! k = ?vals ! k"
    using eject_loop_frame [of spec "ChurnLimit process" ?q "ExitQueueEnd process"
        "ExitQueueEndChurn process" ?vals] notin
    by (simp add: process_ejections_def)
  have b: "ExitEpoch (validators (fst (ProcessEpochRegistryUpdates ctx' spec epc process state)) ! k)
        = ExitEpoch (?vals ! k)
      \<and> WithdrawableEpoch
        (validators (fst (ProcessEpochRegistryUpdates ctx' spec epc process state)) ! k)
        = WithdrawableEpoch (?vals ! k)"
  proof (cases "ctx' RegistryUpdatesPoll")
    case True
    then show ?thesis by (simp add: ProcessEpochRegistryUpdates_cancelled)
  next
    case False
    from ProcessEpochRegistryUpdates_exit_epochs(2,3)
      [where ctx = ctx' and spec = spec and epc = epc and process = process
         and state = state and k = k, OF False]
    show ?thesis unfolding ej by simp
  qed
  have "k < 2 ^ 64" using assms(2,3) by simp
  then have u: "unat (of_nat k :: 64 word) = k" by (rule unat_of_nat64)
  have c: "InitiateValidatorExit spec epc state (of_nat k) = Inr state"
    using assms(3,4) by (simp add: InitiateValidatorExit_def u)
  from a b c show ?thesis by blast
qed

theorem exiting_validator_is_not_ejected_witness:
  "\<exists>process. PrepareEpochProcess never_cancelled example_spec example_epc
       (example_state [low_balance example_validator, low_balance (exiting_validator 20)])
       = Inr process
     \<and> IndicesToEject process = [0]
     \<and> 1 \<notin> set (IndicesToEject process)
     \<and> ExitEpoch (validators (fst (ProcessEpochRegistryUpdates never_cancelled example_spec
          example_epc process
          (example_state [low_balance example_validator, low_balance (exiting_validator 20)])))
          ! 1) = 20
     \<and> WithdrawableEpoch (validators (fst (ProcessEpochRegistryUpdates never_cancelled
          example_spec example_epc process
          (example_state [low_balance example_validator, low_balance (exiting_validator 20)])))
          ! 1) = 276
     \<and> InitiateValidatorExit example_spec example_epc
          (example_state [low_balance example_validator, low_balance (exiting_validator 20)]) 1
        = Inr (example_state [low_balance example_validator, low_balance (exiting_validator 20)])"
proof -
  let ?state = "example_state [low_balance example_validator, low_balance (exiting_validator 20)]"
  let ?run = "PrepareEpochProcess never_cancelled example_spec example_epc ?state"
  have ev: "\<not> isl ?run \<and> IndicesToEject (projr ?run) = [0]" by code_simp
  then obtain process where run: "?run = Inr process" by (cases ?run) simp_all
  have q: "IndicesToEject process = [0]" using ev run by simp
  have len: "length (validators ?state) \<le> 2 ^ 64" by (simp add: example_state_def)
  have k: "1 < length (validators ?state)" by (simp add: example_state_def)
  have v: "validators ?state ! 1 = low_balance (exiting_validator 20)"
    by (simp add: example_state_def)
  have ex: "ExitEpoch (validators ?state ! 1) \<noteq> FAR_FUTURE_EPOCH"
    unfolding v
    by (simp add: low_balance_def exiting_validator_def example_validator_def FAR_FUTURE_EPOCH_def)
  have e: "ExitEpoch (validators ?state ! 1) = 20"
    "WithdrawableEpoch (validators ?state ! 1) = 276"
    unfolding v by (simp_all add: low_balance_def exiting_validator_def example_validator_def)
  from exiting_validator_is_not_ejected [OF run len k ex, of never_cancelled] run q e
  show ?thesis by auto
qed

section \<open>The maybe-activate queue is sorted\<close>

lemma maybe_activate_less_key:
  "maybe_activate_less S a b \<longleftrightarrow> maybe_activate_key S a < maybe_activate_key S b"
proof -
  let ?ea = "ActivationEligibilityEpoch (Validator (S ! unat a))"
  let ?eb = "ActivationEligibilityEpoch (Validator (S ! unat b))"
  have ua: "unat a < 2 ^ 64" and ub: "unat b < 2 ^ 64"
    using unsigned_less [of a] unsigned_less [of b] by simp_all
  show ?thesis
  proof (cases "?ea = ?eb")
    case True
    then show ?thesis
      by (simp add: maybe_activate_less_def maybe_activate_key_def word_less_nat_alt)
  next
    case False
    then have ne: "unat ?ea \<noteq> unat ?eb" by (simp add: word_unat_eq_iff)
    have "unat ?ea < unat ?eb \<longleftrightarrow>
        unat ?ea * 2 ^ 64 + unat a < unat ?eb * 2 ^ 64 + unat b"
    proof
      assume "unat ?ea < unat ?eb"
      then have "Suc (unat ?ea) \<le> unat ?eb" by simp
      then have "Suc (unat ?ea) * 2 ^ 64 \<le> unat ?eb * 2 ^ 64"
        by (rule mult_le_mono1)
      then show "unat ?ea * 2 ^ 64 + unat a < unat ?eb * 2 ^ 64 + unat b"
        using ua by simp
    next
      assume r: "unat ?ea * 2 ^ 64 + unat a < unat ?eb * 2 ^ 64 + unat b"
      show "unat ?ea < unat ?eb"
      proof (rule ccontr)
        assume "\<not> unat ?ea < unat ?eb"
        then have "Suc (unat ?eb) \<le> unat ?ea" using ne by simp
        then have "Suc (unat ?eb) * 2 ^ 64 \<le> unat ?ea * 2 ^ 64"
          by (rule mult_le_mono1)
        then show False using r ub by simp
      qed
    qed
    then show ?thesis
      using False
      by (simp add: maybe_activate_less_def maybe_activate_key_def word_less_nat_alt)
  qed
qed

lemma maybe_activate_less_eq:
  "maybe_activate_less S = (\<lambda>a b. maybe_activate_key S a < maybe_activate_key S b)"
  by (intro ext) (rule maybe_activate_less_key)

lemma maybe_activate_key_inj: "maybe_activate_key S a = maybe_activate_key S b \<Longrightarrow> a = b"
proof -
  assume "maybe_activate_key S a = maybe_activate_key S b"
  then have "\<not> maybe_activate_less S a b" "\<not> maybe_activate_less S b a"
    by (simp_all add: maybe_activate_less_key)
  then show "a = b"
    by (auto simp add: maybe_activate_less_def Let_def split: if_splits)
qed

lemma insert_by_insort_key:
  "insert_by (\<lambda>a b. f a < f b) x ys = insort_key f x ys"
  for f :: "'a \<Rightarrow> nat"
  by (induction ys) (auto simp add: not_less)

lemma sort_Slice_sort_key:
  "sort_Slice (maybe_activate_less S) xs = sort_key (maybe_activate_key S) xs"
proof -
  have "insert_by (maybe_activate_less S) = insort_key (maybe_activate_key S)"
    unfolding maybe_activate_less_eq by (intro ext) (rule insert_by_insort_key)
  then show ?thesis
    by (simp add: sort_Slice_def sort_key_def)
qed

lemma sort_Slice_sorted:
  assumes "distinct xs"
  shows "sorted_wrt (maybe_activate_less S) (sort_Slice (maybe_activate_less S) xs)"
    and "set (sort_Slice (maybe_activate_less S) xs) = set xs"
    and "distinct (sort_Slice (maybe_activate_less S) xs)"
proof -
  let ?k = "maybe_activate_key S"
  let ?r = "sort_key ?k xs"
  have d: "distinct ?r" using assms by simp
  have inj: "inj_on ?k (set ?r)"
    by (rule inj_onI) (rule maybe_activate_key_inj)
  have "sorted (map ?k ?r)" by (rule sorted_sort_key)
  moreover have "distinct (map ?k ?r)"
    using d inj by (simp add: distinct_map)
  ultimately have "sorted_wrt (<) (map ?k ?r)"
    by (simp add: strict_sorted_iff)
  then have "sorted_wrt (\<lambda>a b. ?k a < ?k b) ?r"
    by (simp add: sorted_wrt_map)
  then show "sorted_wrt (maybe_activate_less S) (sort_Slice (maybe_activate_less S) xs)"
    unfolding sort_Slice_sort_key by (simp add: maybe_activate_less_eq)
  show "set (sort_Slice (maybe_activate_less S) xs) = set xs"
    unfolding sort_Slice_sort_key by simp
  show "distinct (sort_Slice (maybe_activate_less S) xs)"
    unfolding sort_Slice_sort_key using assms by simp
qed

lemma sorted_by_key_unique:
  assumes "sorted_wrt (maybe_activate_less S) xs" "sorted_wrt (maybe_activate_less S) ys"
    and "set xs = set ys"
  shows "xs = ys"
proof -
  let ?k = "maybe_activate_key S"
  have x: "sorted_wrt (<) (map ?k xs)" and y: "sorted_wrt (<) (map ?k ys)"
    using assms(1,2) by (simp_all add: sorted_wrt_map maybe_activate_less_eq)
  have "map ?k xs = map ?k ys"
    using x y assms(3)
    by (intro sorted_distinct_set_unique) (simp_all add: strict_sorted_iff)
  moreover have "inj_on ?k (set xs \<union> set ys)"
    by (rule inj_onI) (rule maybe_activate_key_inj)
  ultimately show ?thesis
    by (simp add: inj_on_map_eq_map)
qed

lemma maybe_activate_less_cong:
  assumes "Validator (S ! unat a) = Validator (T ! unat a)"
    and "Validator (S ! unat b) = Validator (T ! unat b)"
  shows "maybe_activate_less S a b = maybe_activate_less T a b"
  using assms by (simp add: maybe_activate_less_def)

text \<open>
  C5. The maybe-activate queue of a process that \<open>PrepareEpochProcess\<close> returns holds
  exactly the validators whose activation epoch is unset and whose eligibility epoch is at
  most the current epoch; the snapshot of each of them is its registry entry; for any two
  positions \<open>i < j\<close> either the eligibility epoch at \<open>i\<close> is smaller, or the eligibility
  epochs are equal and the validator index at \<open>i\<close> is smaller; and every list of the same
  indices that is ascending in this comparison is the queue itself, so the order depends
  on nothing but the two keys. The registry is a Go slice, so it has at most \<open>2^64\<close>
  entries.
\<close>

theorem maybe_activate_queue_sorted:
  assumes "PrepareEpochProcess ctx spec epc state = Inr out"
    and "length (validators state) \<le> 2 ^ 64"
  shows
   "(\<forall>x. x \<in> set (IndicesToMaybeActivate out) \<longleftrightarrow>
        unat x < length (validators state)
        \<and> ActivationEpoch (validators state ! unat x) = FAR_FUTURE_EPOCH
        \<and> ActivationEligibilityEpoch (validators state ! unat x) \<le> CurrentEpoch epc)
    \<and> (\<forall>x \<in> set (IndicesToMaybeActivate out).
          Validator (Statuses out ! unat x) = validators state ! unat x)
    \<and> (\<forall>i j. i < j \<and> j < length (IndicesToMaybeActivate out) \<longrightarrow>
          ActivationEligibilityEpoch (validators state ! unat (IndicesToMaybeActivate out ! i))
            < ActivationEligibilityEpoch
                (validators state ! unat (IndicesToMaybeActivate out ! j))
          \<or> (ActivationEligibilityEpoch
                (validators state ! unat (IndicesToMaybeActivate out ! i))
              = ActivationEligibilityEpoch
                  (validators state ! unat (IndicesToMaybeActivate out ! j))
             \<and> IndicesToMaybeActivate out ! i < IndicesToMaybeActivate out ! j))
    \<and> (\<forall>ys. set ys = set (IndicesToMaybeActivate out)
              \<and> sorted_wrt (maybe_activate_less (Statuses out)) ys
          \<longrightarrow> ys = IndicesToMaybeActivate out)"
proof -
  let ?vals = "validators state"
  let ?q = "IndicesToMaybeActivate out"
  let ?S1 = "map (pass1_status (PreviousEpoch epc) (CurrentEpoch epc)) ?vals"
  let ?raw = "indices_from 0 (to_maybe_activate (CurrentEpoch epc)) ?vals"
  note F = prepare_facts [OF assms(1)]
  have q: "?q = sort_Slice (maybe_activate_less ?S1) ?raw" by (rule F(4))
  have draw: "distinct ?raw"
    using assms(2) by (intro indices_from_distinct) simp
  note S = sort_Slice_sorted [OF draw, of ?S1]
  have setq: "set ?q = set ?raw" unfolding q by (rule S(2))
  have mem: "\<forall>x. x \<in> set ?q \<longleftrightarrow>
        unat x < length ?vals
        \<and> ActivationEpoch (?vals ! unat x) = FAR_FUTURE_EPOCH
        \<and> ActivationEligibilityEpoch (?vals ! unat x) \<le> CurrentEpoch epc"
  proof (intro allI iffI)
    fix x assume "x \<in> set ?q"
    then have "x \<in> set ?raw" using setq by simp
    from indices_from_unat [OF assms(2) this]
    show "unat x < length ?vals
        \<and> ActivationEpoch (?vals ! unat x) = FAR_FUTURE_EPOCH
        \<and> ActivationEligibilityEpoch (?vals ! unat x) \<le> CurrentEpoch epc"
      by (simp add: to_maybe_activate_def)
  next
    fix x :: "64 word" assume h: "unat x < length ?vals
        \<and> ActivationEpoch (?vals ! unat x) = FAR_FUTURE_EPOCH
        \<and> ActivationEligibilityEpoch (?vals ! unat x) \<le> CurrentEpoch epc"
    then have u: "unat x < length ?vals" by simp
    have "of_nat (unat x) \<in> set ?raw"
      unfolding indices_from_member [OF assms(2) u] using h
      by (simp add: to_maybe_activate_def)
    then show "x \<in> set ?q" using setq by simp
  qed
  have snap1: "\<And>x. x \<in> set ?q \<Longrightarrow> Validator (?S1 ! unat x) = ?vals ! unat x"
    using mem by (simp add: pass1_status_def)
  have snap: "\<And>x. x \<in> set ?q \<Longrightarrow> Validator (Statuses out ! unat x) = ?vals ! unat x"
  proof -
    fix x assume "x \<in> set ?q"
    then have "unat x < length ?vals" using mem by simp
    then have "status_inv ?vals (unat x) (Statuses out ! unat x)" using F(2) by simp
    then show "Validator (Statuses out ! unat x) = ?vals ! unat x"
      by (simp add: status_inv_def)
  qed
  have same: "\<And>a b. a \<in> set ?q \<Longrightarrow> b \<in> set ?q \<Longrightarrow>
      maybe_activate_less (Statuses out) a b = maybe_activate_less ?S1 a b"
    by (rule maybe_activate_less_cong) (simp_all add: snap snap1)
  have sorted1: "sorted_wrt (maybe_activate_less ?S1) ?q"
    unfolding q by (rule S(1))
  have sorted_out: "sorted_wrt (maybe_activate_less (Statuses out)) ?q"
    using sorted1 by (rule sorted_wrt_mono_rel [rotated]) (simp add: same)
  have pair: "\<forall>i j. i < j \<and> j < length ?q \<longrightarrow>
          ActivationEligibilityEpoch (?vals ! unat (?q ! i))
            < ActivationEligibilityEpoch (?vals ! unat (?q ! j))
          \<or> (ActivationEligibilityEpoch (?vals ! unat (?q ! i))
              = ActivationEligibilityEpoch (?vals ! unat (?q ! j))
             \<and> ?q ! i < ?q ! j)"
  proof (intro allI impI)
    fix i j assume ij: "i < j \<and> j < length ?q"
    then have less: "maybe_activate_less (Statuses out) (?q ! i) (?q ! j)"
      using sorted_out by (simp add: sorted_wrt_iff_nth_less)
    have "?q ! i \<in> set ?q" "?q ! j \<in> set ?q" using ij by simp_all
    then have "Validator (Statuses out ! unat (?q ! i)) = ?vals ! unat (?q ! i)"
      "Validator (Statuses out ! unat (?q ! j)) = ?vals ! unat (?q ! j)"
      by (simp_all only: snap)
    then show "ActivationEligibilityEpoch (?vals ! unat (?q ! i))
            < ActivationEligibilityEpoch (?vals ! unat (?q ! j))
          \<or> (ActivationEligibilityEpoch (?vals ! unat (?q ! i))
              = ActivationEligibilityEpoch (?vals ! unat (?q ! j))
             \<and> ?q ! i < ?q ! j)"
      using less by (simp add: maybe_activate_less_def Let_def split: if_splits)
  qed
  have uniq: "\<forall>ys. set ys = set ?q \<and> sorted_wrt (maybe_activate_less (Statuses out)) ys
      \<longrightarrow> ys = ?q"
  proof (intro allI impI)
    fix ys assume h: "set ys = set ?q \<and> sorted_wrt (maybe_activate_less (Statuses out)) ys"
    then have sy: "sorted_wrt (maybe_activate_less (Statuses out)) ys"
      and st: "set ys = set ?q" by simp_all
    have "sorted_wrt (maybe_activate_less ?S1) ys"
      using sy by (rule sorted_wrt_mono_rel [rotated]) (simp add: same st)
    then show "ys = ?q"
      using sorted1 st by (rule sorted_by_key_unique)
  qed
  have snapb: "\<forall>x \<in> set ?q. Validator (Statuses out ! unat x) = ?vals ! unat x"
    using snap by blast
  from mem snapb pair uniq show ?thesis
    by (intro conjI)
qed

theorem maybe_activate_queue_sorted_witness:
  "\<exists>out. PrepareEpochProcess never_cancelled example_spec example_epc
       (example_state [pending_validator 7, pending_validator 3, pending_validator 7,
                       example_validator, pending_validator 11]) = Inr out
     \<and> IndicesToMaybeActivate out = [1, 0, 2]
     \<and> Validator (Statuses out ! 1) = pending_validator 3
     \<and> Validator (Statuses out ! 0) = pending_validator 7
     \<and> Validator (Statuses out ! 2) = pending_validator 7"
proof -
  let ?state = "example_state [pending_validator 7, pending_validator 3, pending_validator 7,
                       example_validator, pending_validator 11]"
  let ?run = "PrepareEpochProcess never_cancelled example_spec example_epc ?state"
  have ev: "\<not> isl ?run \<and> IndicesToMaybeActivate (projr ?run) = [1, 0, 2]" by code_simp
  then obtain out where run: "?run = Inr out" by (cases ?run) simp_all
  have q: "IndicesToMaybeActivate out = [1, 0, 2]" using ev run by simp
  have len: "length (validators ?state) \<le> 2 ^ 64" by (simp add: example_state_def)
  have v: "validators ?state ! 0 = pending_validator 7"
    "validators ?state ! 1 = pending_validator 3"
    "validators ?state ! 2 = pending_validator 7"
    by (simp_all add: example_state_def)
  note W = maybe_activate_queue_sorted [OF run len]
  have snap: "\<forall>x \<in> set (IndicesToMaybeActivate out).
      Validator (Statuses out ! unat x) = validators ?state ! unat x"
    by (rule conjunct1 [OF conjunct2 [OF W]])
  have s1: "Validator (Statuses out ! 1) = pending_validator 3"
    using snap unfolding q using v(2) by simp
  have s0: "Validator (Statuses out ! 0) = pending_validator 7"
    using snap unfolding q using v(1) by simp
  have s2: "Validator (Statuses out ! 2) = pending_validator 7"
    using snap unfolding q using v(3) by simp
  show ?thesis
    by (rule exI [of _ out]) (simp only: run q s0 s1 s2 simp_thms)
qed

section \<open>The activation pass\<close>





section \<open>The ejection pass spreads exits over the epochs\<close>











end
